theory Spec2Isabelle
  imports Complex_Main
begin

section \<open>JavaScript strings\<close>

text \<open>
  A JavaScript string is a sequence of UTF-16 code units. A code unit is modelled as a
  natural number and a string as a list of code units, so that \<open>length\<close>, \<open>trim\<close>,
  \<open>split\<close> and the character classes of the regular expressions count what the source
  counts. \<open>js\<close> embeds an ASCII literal.
\<close>

type_synonym jschar = nat
type_synonym jsstring = "jschar list"

definition js :: "string \<Rightarrow> jsstring" where
  "js s = map of_char s"

text \<open>Code units used by the source outside ASCII: the middle dot, the en dash, the bullet.\<close>

definition MIDDLE_DOT :: jschar where "MIDDLE_DOT = 183"
definition EN_DASH :: jschar where "EN_DASH = 8211"
definition BULLET :: jschar where "BULLET = 8226"

text \<open>
  White space and line terminators of ECMAScript: what \<open>String.prototype.trim\<close> strips
  and what \<open>\s\<close> matches.
\<close>

definition is_ws :: "jschar \<Rightarrow> bool" where
  "is_ws c \<longleftrightarrow>
     c = 9 \<or> c = 10 \<or> c = 11 \<or> c = 12 \<or> c = 13 \<or> c = 32 \<or> c = 160 \<or> c = 5760 \<or>
     (8192 \<le> c \<and> c \<le> 8202) \<or> c = 8232 \<or> c = 8233 \<or> c = 8239 \<or> c = 8287 \<or>
     c = 12288 \<or> c = 65279"

definition trim :: "jsstring \<Rightarrow> jsstring" where
  "trim s = rev (dropWhile is_ws (rev (dropWhile is_ws s)))"

text \<open>\<open>s.split(sep)\<close> for a one-unit separator: never empty, \<open>''''.split(sep) = ['''']\<close>.\<close>

fun split_on :: "jschar \<Rightarrow> jsstring \<Rightarrow> jsstring list" where
  "split_on sep [] = [[]]"
| "split_on sep (c # cs) =
     (if c = sep then [] # split_on sep cs
      else (case split_on sep cs of
              [] \<Rightarrow> [[c]]
            | w # ws \<Rightarrow> (c # w) # ws))"

text \<open>\<open>parts.join(sep)\<close>.\<close>

fun join :: "jsstring \<Rightarrow> jsstring list \<Rightarrow> jsstring" where
  "join sep [] = []"
| "join sep [x] = x"
| "join sep (x # y # ys) = x @ sep @ join sep (y # ys)"

text \<open>A value that may be \<open>undefined\<close> is an option; \<open>xs[i]\<close> out of range is \<open>undefined\<close>.\<close>

definition nth_opt :: "'a list \<Rightarrow> nat \<Rightarrow> 'a option" where
  "nth_opt xs i = (if i < length xs then Some (xs ! i) else None)"

section \<open>parseResume\<close>

record parsed_resume =
  headline :: "jsstring option"
  name :: "jsstring option"
  email :: "jsstring option"
  phone :: "jsstring option"
  location :: "jsstring option"
  linkedin :: "jsstring option"
  body :: jsstring

text \<open>
  The \<open>for\<close> loop of \<open>parseResume\<close>: state \<open>(info, bodyStart)\<close>, index \<open>idx\<close>. The
  \<open>break\<close> leaves with \<open>bodyStart = idx + 1\<close>; running off the end leaves \<open>bodyStart\<close>
  as it was.
\<close>

function header_loop ::
  "jsstring list \<Rightarrow> nat \<Rightarrow> jsstring list \<Rightarrow> nat \<Rightarrow> jsstring list \<times> nat" where
  "header_loop lines idx info bodyStart =
     (if idx < length lines then
        (let info' = (if trim (lines ! idx) \<noteq> [] then info @ [trim (lines ! idx)] else info)
         in if length info' = 6 then (info', idx + 1)
            else header_loop lines (idx + 1) info' bodyStart)
      else (info, bodyStart))"
  by pat_completeness auto
termination
  by (relation "measure (\<lambda>(lines, idx, info, bodyStart). length lines - idx)") auto

declare header_loop.simps [simp del]

text \<open>The \<open>while\<close> loop that moves \<open>bodyStart\<close> over blank lines.\<close>

function skip_blank :: "jsstring list \<Rightarrow> nat \<Rightarrow> nat" where
  "skip_blank lines bodyStart =
     (if bodyStart < length lines \<and> trim (lines ! bodyStart) = []
      then skip_blank lines (bodyStart + 1) else bodyStart)"
  by pat_completeness auto
termination
  by (relation "measure (\<lambda>(lines, bodyStart). length lines - bodyStart)") auto

declare skip_blank.simps [simp del]

definition parseResume :: "jsstring \<Rightarrow> parsed_resume" where
  "parseResume resumeText =
     (let lines = split_on 10 resumeText;
          (info, bodyStart) = header_loop lines 0 [] 0;
          bodyStart' = skip_blank lines bodyStart
      in \<lparr> headline = nth_opt info 0, name = nth_opt info 1, email = nth_opt info 2,
           phone = nth_opt info 3, location = nth_opt info 4, linkedin = nth_opt info 5,
           body = join [10] (drop bodyStart' lines) \<rparr>)"

text \<open>A line is blank when nothing is left of it after \<open>trim\<close>.\<close>

definition blank :: "jsstring \<Rightarrow> bool" where
  "blank l \<longleftrightarrow> trim l = []"

text \<open>Two inputs used to run the parser: one with six header lines, one with three.\<close>

definition resume6 :: jsstring where
  "resume6 = join [10] [js ''Engineer'', [], js '' Ann Lee '', js ''ann@x.org'', js ''555'',
                        js ''Paris'', js ''x.org/ann'', [], js '' '', js ''Summary:'', js ''text'']"


definition resume3 :: jsstring where
  "resume3 = join [10] [[], js ''Engineer'', js '' Ann Lee '', [], js ''Summary:'']"

subsection \<open>The two loops, in closed form\<close>

lemma skip_blank_eq:
  "skip_blank lines b = b + length (takeWhile blank (drop b lines))"
proof (induction lines b rule: skip_blank.induct)
  case (1 lines b)
  show ?case
  proof (cases "b < length lines \<and> trim (lines ! b) = []")
    case True
    then have d: "drop b lines = lines ! b # drop (Suc b) lines"
      by (simp add: Cons_nth_drop_Suc)
    from True have "skip_blank lines b = skip_blank lines (b + 1)"
      by (simp add: skip_blank.simps[of lines b])
    also have "\<dots> = (b + 1) + length (takeWhile blank (drop (b + 1) lines))"
      using "1.IH" True by simp
    finally show ?thesis using True d by (simp add: blank_def[abs_def])
  next
    case False
    then have "skip_blank lines b = b" by (auto simp: skip_blank.simps[of lines b])
    moreover have "takeWhile blank (drop b lines) = []"
    proof (cases "b < length lines")
      case True
      then have "drop b lines = lines ! b # drop (Suc b) lines"
        by (simp add: Cons_nth_drop_Suc)
      with False True show ?thesis by (simp add: blank_def)
    next
      case False
      then show ?thesis by simp
    qed
    ultimately show ?thesis by simp
  qed
qed

lemma drop_skip_blank:
  "drop (skip_blank lines b) lines = dropWhile blank (drop b lines)"
proof -
  have "drop (skip_blank lines b) lines
        = drop (length (takeWhile blank (drop b lines))) (drop b lines)"
    by (simp add: skip_blank_eq add.commute)
  then show ?thesis by (simp add: dropWhile_eq_drop)
qed

lemma header_loop_short:
  "length info + length (filter (\<lambda>l. \<not> blank l) (drop idx lines)) < 6 \<Longrightarrow>
   header_loop lines idx info b
     = (info @ map trim (filter (\<lambda>l. \<not> blank l) (drop idx lines)), b)"
proof (induction lines idx info b rule: header_loop.induct)
  case (1 lines idx info b)
  show ?case
  proof (cases "idx < length lines")
    case False
    then show ?thesis by (simp add: header_loop.simps[of lines idx])
  next
    case True
    then have d: "drop idx lines = lines ! idx # drop (Suc idx) lines"
      by (simp add: Cons_nth_drop_Suc)
    let ?info' = "if trim (lines ! idx) \<noteq> [] then info @ [trim (lines ! idx)] else info"
    have len: "length ?info' + length (filter (\<lambda>l. \<not> blank l) (drop (idx + 1) lines)) < 6"
      using "1.prems" d by (auto simp: blank_def)
    then have ne: "length ?info' \<noteq> 6" by linarith
    have "header_loop lines idx info b = header_loop lines (idx + 1) ?info' b"
      using True ne by (auto simp: header_loop.simps[of lines idx info b] Let_def)
    also have "\<dots> = (?info' @ map trim (filter (\<lambda>l. \<not> blank l) (drop (idx + 1) lines)), b)"
      using "1.IH"[OF True refl ne len] .
    finally show ?thesis using d by (auto simp: blank_def)
  qed
qed

lemma header_loop_six:
  "length info < 6 \<Longrightarrow> drop idx lines = pre @ l # post \<Longrightarrow>
   length info + length (filter (\<lambda>l. \<not> blank l) pre) = 5 \<Longrightarrow> \<not> blank l \<Longrightarrow>
   header_loop lines idx info b
     = (info @ map trim (filter (\<lambda>l. \<not> blank l) pre) @ [trim l], idx + length pre + 1)"
proof (induction pre arbitrary: idx info)
  case Nil
  then have lt: "idx < length lines" and l: "lines ! idx = l"
    by (metis drop_all list.discI not_le_imp_less append_Nil, metis append_Nil nth_via_drop)
  from Nil have "length (info @ [trim l]) = 6" by simp
  with lt l Nil.prems(4) show ?case
    by (auto simp: header_loop.simps[of lines idx info b] blank_def Let_def)
next
  case (Cons p pre)
  then have lt: "idx < length lines" and p: "lines ! idx = p"
    by (metis drop_all list.discI not_le_imp_less append_Cons, metis append_Cons nth_via_drop)
  have d: "drop (idx + 1) lines = pre @ l # post"
    using Cons.prems(2) by (metis Suc_eq_plus1 append_Cons drop_Suc list.sel(3) tl_drop)
  let ?info' = "if trim p \<noteq> [] then info @ [trim p] else info"
  have len: "length ?info' + length (filter (\<lambda>l. \<not> blank l) pre) = 5"
    using Cons.prems(3) by (auto simp: blank_def)
  have ne: "length ?info' \<noteq> 6" "length ?info' < 6" using len by linarith+
  have "header_loop lines idx info b = header_loop lines (idx + 1) ?info' b"
    using lt p ne by (auto simp: header_loop.simps[of lines idx info b] Let_def)
  also have "\<dots> = (?info' @ map trim (filter (\<lambda>l. \<not> blank l) pre) @ [trim l], idx + 1 + length pre + 1)"
    using Cons.IH[OF ne(2) d len Cons.prems(4)] .
  finally show ?case by (auto simp: blank_def)
qed

lemma filter_split_at:
  "n < length (filter P xs) \<Longrightarrow>
   \<exists>pre l post. xs = pre @ l # post \<and> length (filter P pre) = n \<and> P l"
proof (induction xs arbitrary: n)
  case Nil
  then show ?case by simp
next
  case (Cons x xs)
  show ?case
  proof (cases "P x")
    case False
    with Cons.prems have "n < length (filter P xs)" by simp
    from Cons.IH[OF this] obtain pre l post where
      "xs = pre @ l # post" "length (filter P pre) = n" "P l" by blast
    with False have "x # xs = (x # pre) @ l # post \<and> length (filter P (x # pre)) = n \<and> P l"
      by simp
    then show ?thesis by blast
  next
    case True
    show ?thesis
    proof (cases n)
      case 0
      with True have "x # xs = [] @ x # xs \<and> length (filter P []) = n \<and> P x" by simp
      then show ?thesis by blast
    next
      case (Suc m)
      with Cons.prems True have "m < length (filter P xs)" by simp
      from Cons.IH[OF this] obtain pre l post where
        "xs = pre @ l # post" "length (filter P pre) = m" "P l" by blast
      with True Suc have "x # xs = (x # pre) @ l # post \<and> length (filter P (x # pre)) = n \<and> P l"
        by simp
      then show ?thesis by blast
    qed
  qed
qed

lemma take_six_nth:
  "6 \<le> length l \<Longrightarrow> take 6 l = [l ! 0, l ! 1, l ! 2, l ! 3, l ! 4, l ! 5]"
  by (auto simp: eval_nat_numeral Suc_le_length_iff)

lemma nth_opt_padded:
  "i < n \<Longrightarrow> nth_opt xs i = (map Some xs @ replicate n None) ! i"
  by (simp add: nth_opt_def nth_append)

lemma nth_opt_short:
  "[nth_opt info 0, nth_opt info 1, nth_opt info 2, nth_opt info 3, nth_opt info 4, nth_opt info 5]
     = take 6 (map Some info @ replicate 6 None)"
proof -
  have "6 \<le> length (map Some info @ replicate 6 None)" by simp
  from take_six_nth[OF this] show ?thesis
    by (simp only: nth_opt_padded[of _ 6, symmetric] zero_less_numeral one_less_numeral_iff semiring_norm)
qed

lemma nth_opt_six:
  "length info = 6 \<Longrightarrow>
   [nth_opt info 0, nth_opt info 1, nth_opt info 2, nth_opt info 3, nth_opt info 4, nth_opt info 5]
     = map Some info"
  by (simp only: nth_opt_short) simp

lemma filter_dropWhile_blank:
  "filter (\<lambda>l. \<not> blank l) (dropWhile blank ls) = filter (\<lambda>l. \<not> blank l) ls"
  by (induction ls) auto

lemma split_resume6: "split_on 10 resume6 = [js ''Engineer'', [], js '' Ann Lee '', js ''ann@x.org'', js ''555'',
                        js ''Paris'', js ''x.org/ann'', [], js '' '', js ''Summary:'', js ''text'']"
  by (simp add: resume6_def js_def)


lemma split_resume3:
  "split_on 10 resume3 = [[], js ''Engineer'', js '' Ann Lee '', [], js ''Summary:'']"
  by (simp add: resume3_def js_def)

subsection \<open>Six header lines\<close>

text \<open>
  Claim C1. When the input has at least six non-blank lines, the lines of the input are
  \<open>pre @ l6 # rest\<close> where \<open>l6\<close> is the sixth non-blank line; the header fields
  headline, name, email, phone, location, linkedin are, in this order, the first six
  non-blank lines, trimmed; and the body is \<open>rest\<close> without its leading blank lines,
  joined by newlines: it holds none of the six lines nor the blank lines that follow
  the sixth.
\<close>

theorem parseResume_six_header_lines:
  assumes "6 \<le> length (filter (\<lambda>l. \<not> blank l) (split_on 10 text))"
  shows "\<exists>pre l6 rest.
           split_on 10 text = pre @ l6 # rest \<and>
           length (filter (\<lambda>l. \<not> blank l) pre) = 5 \<and> \<not> blank l6 \<and>
           [headline (parseResume text), name (parseResume text), email (parseResume text),
            phone (parseResume text), location (parseResume text), linkedin (parseResume text)]
             = map (\<lambda>l. Some (trim l)) (take 6 (filter (\<lambda>l. \<not> blank l) (split_on 10 text))) \<and>
           take 6 (filter (\<lambda>l. \<not> blank l) (split_on 10 text))
             = filter (\<lambda>l. \<not> blank l) pre @ [l6] \<and>
           body (parseResume text) = join [10] (dropWhile blank rest)"
proof -
  let ?nb = "\<lambda>l. \<not> blank l"
  let ?lines = "split_on 10 text"
  from assms have "5 < length (filter ?nb ?lines)" by simp
  from filter_split_at[OF this] obtain pre l6 rest where
    sp: "?lines = pre @ l6 # rest" and five: "length (filter ?nb pre) = 5" and nb: "?nb l6"
    by blast
  let ?info = "map trim (filter ?nb pre) @ [trim l6]"
  have hl: "header_loop ?lines 0 [] 0 = ([] @ ?info, 0 + length pre + 1)"
    by (rule header_loop_six) (use sp five nb in simp_all)
  have len: "length ?info = 6" using five by simp
  have tk: "take 6 (filter ?nb ?lines) = filter ?nb pre @ [l6]"
    using sp five nb by simp
  have dr: "drop (skip_blank ?lines (length pre + 1)) ?lines = dropWhile blank rest"
  proof -
    have "drop (length pre + 1) ?lines = rest" using sp by simp
    with drop_skip_blank[of ?lines "length pre + 1"] show ?thesis by simp
  qed
  have flds: "[headline (parseResume text), name (parseResume text), email (parseResume text),
            phone (parseResume text), location (parseResume text), linkedin (parseResume text)]
        = map Some ?info"
    using hl nth_opt_six[OF len] by (simp add: parseResume_def Let_def)
  have bd: "body (parseResume text) = join [10] (dropWhile blank rest)"
    using hl dr by (simp add: parseResume_def Let_def)
  have "map Some ?info = map (\<lambda>l. Some (trim l)) (take 6 (filter ?nb ?lines))"
    by (simp add: tk)
  with flds sp five nb tk bd show ?thesis by metis
qed


theorem parseResume_six_header_lines_witness:
  "6 \<le> length (filter (\<lambda>l. \<not> blank l) (split_on 10 resume6)) \<and>
   (\<exists>pre l6 rest.
           split_on 10 resume6 = pre @ l6 # rest \<and>
           length (filter (\<lambda>l. \<not> blank l) pre) = 5 \<and> \<not> blank l6 \<and>
           [headline (parseResume resume6), name (parseResume resume6), email (parseResume resume6),
            phone (parseResume resume6), location (parseResume resume6), linkedin (parseResume resume6)]
             = map (\<lambda>l. Some (trim l)) (take 6 (filter (\<lambda>l. \<not> blank l) (split_on 10 resume6))) \<and>
           take 6 (filter (\<lambda>l. \<not> blank l) (split_on 10 resume6))
             = filter (\<lambda>l. \<not> blank l) pre @ [l6] \<and>
           body (parseResume resume6) = join [10] (dropWhile blank rest))"
proof -
  have h: "6 \<le> length (filter (\<lambda>l. \<not> blank l) (split_on 10 resume6))"
    by (simp add: split_resume6 blank_def trim_def is_ws_def js_def)
  show ?thesis
    by (rule conjI[OF h parseResume_six_header_lines[OF h]])
qed

text \<open>The parser run on the six-line input.\<close>

lemma parseResume_resume6:
  "parseResume resume6 =
   \<lparr> headline = Some (js ''Engineer''), name = Some (js ''Ann Lee''), email = Some (js ''ann@x.org''),
     phone = Some (js ''555''), location = Some (js ''Paris''), linkedin = Some (js ''x.org/ann''),
     body = js ''Summary:'' @ [10] @ js ''text'' \<rparr>"
proof -
  have hl: "header_loop (split_on 10 resume6) 0 [] 0 =
             ([js ''Engineer'', js ''Ann Lee'', js ''ann@x.org'', js ''555'',
               js ''Paris'', js ''x.org/ann''], 7)"
    unfolding split_resume6 by (simp add: header_loop.simps js_def trim_def is_ws_def Let_def)
  have sb: "skip_blank (split_on 10 resume6) 7 = 9"
    unfolding split_resume6 by (simp add: skip_blank.simps js_def trim_def is_ws_def)
  show ?thesis
    unfolding parseResume_def hl Let_def prod.case sb
    by (simp add: split_resume6 nth_opt_def)
qed

subsection \<open>Fewer than six header lines\<close>

text \<open>
  Claim C10. When the input has fewer than six non-blank lines, \<open>bodyStart\<close> stays 0:
  the body is the whole input without its leading blank lines, so every non-blank line
  of the input, and hence every line collected as a header field, is still a line of
  the body; the header fields are the trimmed non-blank lines, the missing ones
  \<open>undefined\<close>.
\<close>

theorem parseResume_fewer_than_six:
  assumes "length (filter (\<lambda>l. \<not> blank l) (split_on 10 text)) < 6"
  shows "snd (header_loop (split_on 10 text) 0 [] 0) = 0 \<and>
         body (parseResume text) = join [10] (dropWhile blank (split_on 10 text)) \<and>
         filter (\<lambda>l. \<not> blank l) (dropWhile blank (split_on 10 text))
           = filter (\<lambda>l. \<not> blank l) (split_on 10 text) \<and>
         [headline (parseResume text), name (parseResume text), email (parseResume text),
          phone (parseResume text), location (parseResume text), linkedin (parseResume text)]
           = take 6 (map (\<lambda>l. Some (trim l)) (filter (\<lambda>l. \<not> blank l) (split_on 10 text))
                       @ replicate 6 None)"
proof -
  let ?nb = "\<lambda>l. \<not> blank l"
  let ?lines = "split_on 10 text"
  have hl: "header_loop ?lines 0 [] 0 = ([] @ map trim (filter ?nb (drop 0 ?lines)), 0)"
    by (rule header_loop_short) (use assms in simp)
  have dr: "drop (skip_blank ?lines 0) ?lines = dropWhile blank ?lines"
    by (simp add: drop_skip_blank)
  have bd: "body (parseResume text) = join [10] (dropWhile blank ?lines)"
    using hl dr by (simp add: parseResume_def Let_def)
  have flds: "[headline (parseResume text), name (parseResume text), email (parseResume text),
          phone (parseResume text), location (parseResume text), linkedin (parseResume text)]
           = take 6 (map Some (map trim (filter ?nb ?lines)) @ replicate 6 None)"
    using hl nth_opt_short[of "map trim (filter ?nb ?lines)"] by (simp add: parseResume_def Let_def)
  show ?thesis using hl bd flds by (simp add: filter_dropWhile_blank comp_def)
qed

theorem parseResume_fewer_than_six_witness:
  "length (filter (\<lambda>l. \<not> blank l) (split_on 10 resume3)) < 6 \<and>
   body (parseResume resume3)
     = js ''Engineer'' @ [10] @ js '' Ann Lee '' @ [10, 10] @ js ''Summary:'' \<and>
   [headline (parseResume resume3), name (parseResume resume3), email (parseResume resume3),
    phone (parseResume resume3), location (parseResume resume3), linkedin (parseResume resume3)]
     = [Some (js ''Engineer''), Some (js ''Ann Lee''), Some (js ''Summary:''), None, None, None]"
proof -
  have h: "length (filter (\<lambda>l. \<not> blank l) (split_on 10 resume3)) < 6"
    by (simp add: split_resume3 blank_def trim_def is_ws_def js_def)
  have nb: "filter (\<lambda>l. \<not> blank l) (split_on 10 resume3)
            = [js ''Engineer'', js '' Ann Lee '', js ''Summary:'']"
    by (simp add: split_resume3 blank_def trim_def is_ws_def js_def)
  have dw: "dropWhile blank (split_on 10 resume3)
            = [js ''Engineer'', js '' Ann Lee '', [], js ''Summary:'']"
    by (simp add: split_resume3 blank_def trim_def is_ws_def js_def)
  have tr: "map (\<lambda>l. Some (trim l)) [js ''Engineer'', js '' Ann Lee '', js ''Summary:'']
            = [Some (js ''Engineer''), Some (js ''Ann Lee''), Some (js ''Summary:'')]"
    by (simp add: trim_def is_ws_def js_def)
  from parseResume_fewer_than_six[OF h] h show ?thesis
    unfolding nb dw tr by (simp add: eval_nat_numeral)
qed

section \<open>wrapText\<close>

text \<open>
  A font is what the source asks of it: \<open>font.widthOfTextAtSize(text, size)\<close>, the width
  of a text at a size. The measure belongs to the PDF library and is a parameter of the
  model; numbers are exact rationals.
\<close>

type_synonym font = "jsstring \<Rightarrow> rat \<Rightarrow> rat"

text \<open>The candidate line of one iteration.\<close>

definition testLine :: "jsstring \<Rightarrow> jsstring \<Rightarrow> jsstring" where
  "testLine currentLine w = (if currentLine \<noteq> [] then currentLine @ [32] @ w else w)"

text \<open>The loop over the words, with state \<open>(lines, currentLine)\<close>.\<close>

fun wrap_loop ::
  "font \<Rightarrow> rat \<Rightarrow> rat \<Rightarrow> jsstring list \<Rightarrow> jsstring list \<Rightarrow> jsstring
     \<Rightarrow> jsstring list \<times> jsstring" where
  "wrap_loop font sz maxWidth [] lines currentLine = (lines, currentLine)"
| "wrap_loop font sz maxWidth (w # ws) lines currentLine =
     (let testWidth = font (testLine currentLine w) sz
      in if testWidth > maxWidth \<and> currentLine \<noteq> []
         then wrap_loop font sz maxWidth ws (lines @ [currentLine]) w
         else wrap_loop font sz maxWidth ws lines (testLine currentLine w))"

definition wrapText :: "jsstring \<Rightarrow> font \<Rightarrow> rat \<Rightarrow> rat \<Rightarrow> jsstring list" where
  "wrapText text font sz maxWidth =
     (let words = split_on 32 text;
          (lines, currentLine) = wrap_loop font sz maxWidth words [] []
      in if currentLine \<noteq> [] then lines @ [currentLine] else lines)"

text \<open>
  A measure under which a line of two parts joined by a space is at least as wide as
  each part.
\<close>

definition widens :: "font \<Rightarrow> rat \<Rightarrow> bool" where
  "widens f sz \<longleftrightarrow> (\<forall>a b. f a sz \<le> f (a @ [32] @ b) sz \<and> f b sz \<le> f (a @ [32] @ b) sz)"

text \<open>A fixed-pitch measure and an input used to run the wrapper.\<close>

definition fixed_pitch :: font where
  "fixed_pitch s sz = of_nat (length s) * sz / 2"

definition wrap_input :: jsstring where
  "wrap_input = js ''aa bbbbbbbb c  d''"


lemma wrap_loop_commit:
  "font (testLine cur w) sz > maxWidth \<and> cur \<noteq> [] \<Longrightarrow>
   wrap_loop font sz maxWidth (w # ws) lines cur
     = wrap_loop font sz maxWidth ws (lines @ [cur]) w"
  by (simp add: Let_def)

lemma wrap_loop_extend:
  "\<not> (font (testLine cur w) sz > maxWidth \<and> cur \<noteq> []) \<Longrightarrow>
   wrap_loop font sz maxWidth (w # ws) lines cur
     = wrap_loop font sz maxWidth ws lines (testLine cur w)"
  by (auto simp: Let_def)

text \<open>
  The input modulo white space collapsing: its non-empty words, joined by single spaces.
\<close>

definition collapse_spaces :: "jsstring \<Rightarrow> jsstring" where
  "collapse_spaces text = join [32] (filter (\<lambda>w. w \<noteq> []) (split_on 32 text))"

lemma split_on_not_Nil [simp]: "split_on sep s \<noteq> []"
  by (induction s) (simp_all split: list.split)

lemma split_on_Cons:
  "split_on sep (c # cs) =
     (if c = sep then [] # split_on sep cs
      else (c # hd (split_on sep cs)) # tl (split_on sep cs))"
  by (cases "split_on sep cs") simp_all

declare split_on.simps(2) [simp del]


lemma split_on_append:
  "split_on sep (a @ sep # b) = split_on sep a @ split_on sep b"
  by (induction a) (simp_all add: split_on_Cons)

lemma split_on_no_sep: "sep \<notin> set w \<Longrightarrow> split_on sep w = [w]"
  by (induction w) (simp_all add: split_on_Cons)

lemma split_on_parts_no_sep: "w \<in> set (split_on sep s) \<Longrightarrow> sep \<notin> set w"
proof (induction s arbitrary: w)
  case Nil
  then show ?case by simp
next
  case (Cons c cs)
  show ?case
  proof (cases "c = sep")
    case True
    with Cons show ?thesis by (auto simp: split_on_Cons)
  next
    case False
    with Cons.prems have "w = c # hd (split_on sep cs) \<or> w \<in> set (tl (split_on sep cs))"
      by (simp add: split_on_Cons)
    moreover have "hd (split_on sep cs) \<in> set (split_on sep cs)" by simp
    moreover have "set (tl (split_on sep cs)) \<subseteq> set (split_on sep cs)"
      by (simp add: list.set_sel(2) subsetI)
    ultimately show ?thesis using Cons.IH False by auto
  qed
qed

lemma wrap_loop_words:
  "\<forall>w \<in> set ws. 32 \<notin> set w \<Longrightarrow>
   wrap_loop font sz maxWidth ws lines cur = (lines', cur') \<Longrightarrow>
   filter (\<lambda>w. w \<noteq> []) (concat (map (split_on 32) lines') @ split_on 32 cur')
     = filter (\<lambda>w. w \<noteq> []) (concat (map (split_on 32) lines) @ split_on 32 cur) @
       filter (\<lambda>w. w \<noteq> []) ws"
proof (induction ws arbitrary: lines cur)
  case Nil
  then show ?case by simp
next
  case (Cons w ws)
  have w: "split_on 32 w = [w]" using Cons.prems(1) by (simp add: split_on_no_sep)
  have all: "\<forall>w \<in> set ws. 32 \<notin> set w" using Cons.prems(1) by simp
  let ?test = "testLine cur w"
  show ?case
  proof (cases "font ?test sz > maxWidth \<and> cur \<noteq> []")
    case True
    then have "wrap_loop font sz maxWidth ws (lines @ [cur]) w = (lines', cur')"
      using Cons.prems(2) by (simp only: wrap_loop_commit[where font=font and cur=cur and w=w and sz=sz and maxWidth=maxWidth, OF True])
    from Cons.IH[OF all this] show ?thesis using w by simp
  next
    case False
    then have "wrap_loop font sz maxWidth ws lines ?test = (lines', cur')"
      using Cons.prems(2) by (simp only: wrap_loop_extend[where font=font and cur=cur and w=w and sz=sz and maxWidth=maxWidth, OF False])
    from Cons.IH[OF all this] show ?thesis using w
      by (cases "cur = []") (simp_all add: split_on_append testLine_def)
  qed
qed

lemma wrap_loop_width:
  "set ws \<subseteq> W \<Longrightarrow>
   \<forall>l \<in> set lines. font l sz \<le> maxWidth \<or> l \<in> W \<Longrightarrow>
   font cur sz \<le> maxWidth \<or> cur \<in> W \<or> cur = [] \<Longrightarrow>
   wrap_loop font sz maxWidth ws lines cur = (lines', cur') \<Longrightarrow>
   (\<forall>l \<in> set lines'. font l sz \<le> maxWidth \<or> l \<in> W) \<and>
   (font cur' sz \<le> maxWidth \<or> cur' \<in> W \<or> cur' = [])"
proof (induction ws arbitrary: lines cur)
  case Nil
  then show ?case by simp
next
  case (Cons w ws)
  have sub: "set ws \<subseteq> W" and wW: "w \<in> W" using Cons.prems(1) by auto
  let ?test = "testLine cur w"
  show ?case
  proof (cases "font ?test sz > maxWidth \<and> cur \<noteq> []")
    case True
    then have run: "wrap_loop font sz maxWidth ws (lines @ [cur]) w = (lines', cur')"
      using Cons.prems(4) by (simp only: wrap_loop_commit[where font=font and cur=cur and w=w and sz=sz and maxWidth=maxWidth, OF True])
    have "\<forall>l \<in> set (lines @ [cur]). font l sz \<le> maxWidth \<or> l \<in> W"
      using Cons.prems(2,3) True by auto
    from Cons.IH[OF sub this _ run] wW show ?thesis by simp
  next
    case False
    then have run: "wrap_loop font sz maxWidth ws lines ?test = (lines', cur')"
      using Cons.prems(4) by (simp only: wrap_loop_extend[where font=font and cur=cur and w=w and sz=sz and maxWidth=maxWidth, OF False])
    have "font ?test sz \<le> maxWidth \<or> ?test \<in> W \<or> ?test = []"
      using False wW by (cases "cur = []") (auto simp: testLine_def)
    from Cons.IH[OF sub Cons.prems(2) this run] show ?thesis .
  qed
qed

lemma wrap_loop_nonempty:
  "\<forall>l \<in> set lines. l \<noteq> [] \<Longrightarrow>
   wrap_loop font sz maxWidth ws lines cur = (lines', cur') \<Longrightarrow>
   \<forall>l \<in> set lines'. l \<noteq> []"
proof (induction ws arbitrary: lines cur)
  case Nil
  then show ?case by simp
next
  case (Cons w ws)
  show ?case
  proof (cases "font (testLine cur w) sz > maxWidth \<and> cur \<noteq> []")
    case True
    then have run: "wrap_loop font sz maxWidth ws (lines @ [cur]) w = (lines', cur')"
      using Cons.prems(2) by (simp only: wrap_loop_commit[where font=font and cur=cur and w=w and sz=sz and maxWidth=maxWidth, OF True])
    have "\<forall>l \<in> set (lines @ [cur]). l \<noteq> []" using Cons.prems(1) True by simp
    from Cons.IH[OF this run] show ?thesis .
  next
    case False
    then have run: "wrap_loop font sz maxWidth ws lines (testLine cur w) = (lines', cur')"
      using Cons.prems(2) by (simp only: wrap_loop_extend[where font=font and cur=cur and w=w and sz=sz and maxWidth=maxWidth, OF False])
    from Cons.IH[OF Cons.prems(1) run] show ?thesis .
  qed
qed

lemma wrap_loop_wide_words:
  assumes mono: "widens f sz"
  shows "wrap_loop f sz mw ws lines cur = (lines', cur') \<Longrightarrow>
     set lines \<subseteq> set lines' \<and>
     (cur \<noteq> [] \<and> f cur sz > mw \<longrightarrow> cur \<in> set lines' \<or> cur' = cur) \<and>
     (\<forall>w \<in> set ws. w \<noteq> [] \<and> f w sz > mw \<longrightarrow> w \<in> set lines' \<or> cur' = w)"
proof (induction ws arbitrary: lines cur)
  case Nil
  then show ?case by simp
next
  case (Cons w ws)
  show ?case
  proof (cases "f (testLine cur w) sz > mw \<and> cur \<noteq> []")
    case True
    then have run: "wrap_loop f sz mw ws (lines @ [cur]) w = (lines', cur')"
      using Cons.prems
      by (simp only: wrap_loop_commit[where font=f and cur=cur and w=w and sz=sz and maxWidth=mw, OF True])
    from Cons.IH[OF run] show ?thesis by auto
  next
    case False
    then have run: "wrap_loop f sz mw ws lines (testLine cur w) = (lines', cur')"
      using Cons.prems
      by (simp only: wrap_loop_extend[where font=f and cur=cur and w=w and sz=sz and maxWidth=mw, OF False])
    note ih = Cons.IH[OF run]
    have a: "\<not> (cur \<noteq> [] \<and> f cur sz > mw)"
    proof
      assume c: "cur \<noteq> [] \<and> f cur sz > mw"
      then have "f cur sz \<le> f (testLine cur w) sz"
        using mono by (simp add: widens_def testLine_def)
      with c False show False by simp
    qed
    have b: "w \<in> set lines' \<or> cur' = w" if w: "w \<noteq> [] \<and> f w sz > mw"
    proof -
      have "cur = []"
      proof (rule ccontr)
        assume c: "cur \<noteq> []"
        then have "f w sz \<le> f (testLine cur w) sz"
          using mono by (simp add: widens_def testLine_def)
        with w c False show False by simp
      qed
      then have "testLine cur w = w" by (simp add: testLine_def)
      with ih w show ?thesis by simp
    qed
    from ih a b show ?thesis by auto
  qed
qed

lemma wrapText_wide_words:
  assumes "widens f sz" "w \<in> set (split_on 32 s)" "w \<noteq> []" "f w sz > mw"
  shows "w \<in> set (wrapText s f sz mw)"
proof -
  obtain lines cur where run: "wrap_loop f sz mw (split_on 32 s) [] [] = (lines, cur)"
    by (cases "wrap_loop f sz mw (split_on 32 s) [] []") auto
  from wrap_loop_wide_words[OF assms(1) run] assms(2,3,4)
  have "w \<in> set lines \<or> cur = w" by blast
  then show ?thesis using assms(3) by (auto simp: wrapText_def run)
qed

lemma widens_fixed_pitch: "widens fixed_pitch 2"
  by (simp add: widens_def fixed_pitch_def)

text \<open>
  Claim C2. For every text, font, size and maximal width: every emitted line is
  non-empty, and a line whose measured width exceeds the maximal width is a single word
  of the input (one of the space-separated words, with no space in it), emitted whole;
  the non-empty words of the emitted lines, in order, are the non-empty words of the
  input, so that joining them with single spaces gives the input with its white space
  collapsed. When a line is at least as wide as each of its two parts, every non-empty
  word wider than the maximal width is a line of its own.
\<close>

theorem wrapText_width_and_words:
  "(\<forall>l \<in> set (wrapText text font sz maxWidth).
      l \<noteq> [] \<and>
      (font l sz > maxWidth \<longrightarrow> l \<in> set (split_on 32 text) \<and> 32 \<notin> set l)) \<and>
   filter (\<lambda>w. w \<noteq> []) (concat (map (split_on 32) (wrapText text font sz maxWidth)))
     = filter (\<lambda>w. w \<noteq> []) (split_on 32 text) \<and>
   join [32] (filter (\<lambda>w. w \<noteq> []) (concat (map (split_on 32) (wrapText text font sz maxWidth))))
     = collapse_spaces text \<and>
   (widens font sz \<longrightarrow>
    (\<forall>w \<in> set (split_on 32 text).
       w \<noteq> [] \<and> font w sz > maxWidth \<longrightarrow> w \<in> set (wrapText text font sz maxWidth)))"
proof -
  obtain lines cur where run: "wrap_loop font sz maxWidth (split_on 32 text) [] [] = (lines, cur)"
    by (cases "wrap_loop font sz maxWidth (split_on 32 text) [] []") auto
  have wt: "wrapText text font sz maxWidth = (if cur \<noteq> [] then lines @ [cur] else lines)"
    by (simp add: wrapText_def run)
  have nosep: "\<forall>w \<in> set (split_on 32 text). 32 \<notin> set w"
    using split_on_parts_no_sep by blast
  have words: "filter (\<lambda>w. w \<noteq> []) (concat (map (split_on 32) (wrapText text font sz maxWidth)))
     = filter (\<lambda>w. w \<noteq> []) (split_on 32 text)"
    using wrap_loop_words[OF nosep run] by (cases "cur = []") (simp_all add: wt)
  have "(\<forall>l \<in> set lines. font l sz \<le> maxWidth \<or> l \<in> set (split_on 32 text)) \<and>
        (font cur sz \<le> maxWidth \<or> cur \<in> set (split_on 32 text) \<or> cur = [])"
    by (rule wrap_loop_width[OF _ _ _ run]) simp_all
  then have width: "\<forall>l \<in> set (wrapText text font sz maxWidth).
      font l sz > maxWidth \<longrightarrow> l \<in> set (split_on 32 text) \<and> 32 \<notin> set l"
    using nosep by (auto simp: wt)
  have ne: "\<forall>l \<in> set (wrapText text font sz maxWidth). l \<noteq> []"
    using wrap_loop_nonempty[OF _ run] by (auto simp: wt)
  have wide: "widens font sz \<longrightarrow>
    (\<forall>w \<in> set (split_on 32 text).
       w \<noteq> [] \<and> font w sz > maxWidth \<longrightarrow> w \<in> set (wrapText text font sz maxWidth))"
    using wrapText_wide_words by blast
  from words width ne wide show ?thesis by (simp add: collapse_spaces_def)
qed

lemma split_wrap_input:
  "split_on 32 wrap_input = [js ''aa'', js ''bbbbbbbb'', js ''c'', [], js ''d'']"
  by (simp add: wrap_input_def js_def split_on.simps)

lemma wrapText_wrap_input:
  "wrapText wrap_input fixed_pitch 2 5 = [js ''aa'', js ''bbbbbbbb'', js ''c  d'']"
  unfolding wrapText_def split_wrap_input
  by (simp add: js_def testLine_def fixed_pitch_def Let_def)

theorem wrapText_width_and_words_witness:
  "js ''bbbbbbbb'' \<in> set (wrapText wrap_input fixed_pitch 2 5) \<and>
   fixed_pitch (js ''bbbbbbbb'') 2 > 5 \<and>
   js ''bbbbbbbb'' \<in> set (split_on 32 wrap_input) \<and> 32 \<notin> set (js ''bbbbbbbb'') \<and>
   join [32] (filter (\<lambda>w. w \<noteq> [])
      (concat (map (split_on 32) (wrapText wrap_input fixed_pitch 2 5))))
     = collapse_spaces wrap_input \<and>
   collapse_spaces wrap_input = js ''aa bbbbbbbb c d'' \<and>
   widens fixed_pitch 2"
proof -
  have m: "js ''bbbbbbbb'' \<in> set (wrapText wrap_input fixed_pitch 2 5)"
    by (simp add: wrapText_wrap_input)
  have w: "fixed_pitch (js ''bbbbbbbb'') 2 > 5"
    by (simp add: fixed_pitch_def js_def)
  have c: "collapse_spaces wrap_input = js ''aa bbbbbbbb c d''"
    by (simp add: collapse_spaces_def split_wrap_input js_def)
  from wrapText_width_and_words[of wrap_input fixed_pitch 2 5] m w c widens_fixed_pitch
  show ?thesis by blast
qed

section \<open>formatDate\<close>

text \<open>The table of month abbreviations.\<close>

definition monthNames :: "jsstring list" where
  "monthNames = map js [''Jan'', ''Feb'', ''Mar'', ''Apr'', ''May'', ''Jun'',
                        ''Jul'', ''Aug'', ''Sep'', ''Oct'', ''Nov'', ''Dec'']"

definition is_digit :: "jschar \<Rightarrow> bool" where
  "is_digit c \<longleftrightarrow> 48 \<le> c \<and> c \<le> 57"

text \<open>The separator class \<open>[en dash, -]\<close> of the split: en dash or hyphen.\<close>

definition is_dash :: "jschar \<Rightarrow> bool" where
  "is_dash c \<longleftrightarrow> c = EN_DASH \<or> c = 45"

text \<open>\<open>s.split(re)\<close> for a regular expression that matches one code unit of a class.\<close>

fun split_by :: "(jschar \<Rightarrow> bool) \<Rightarrow> jsstring \<Rightarrow> jsstring list" where
  "split_by P [] = [[]]"
| "split_by P (c # cs) =
     (if P c then [] # split_by P cs
      else (case split_by P cs of
              [] \<Rightarrow> [[c]]
            | w # ws \<Rightarrow> (c # w) # ws))"

text \<open>The test \<open>/^\d{2}\/\d{4}$/\<close>: two ASCII digits, a slash, four ASCII digits.\<close>

fun is_mm_yyyy :: "jsstring \<Rightarrow> bool" where
  "is_mm_yyyy [m1, m2, s, y1, y2, y3, y4] \<longleftrightarrow>
     is_digit m1 \<and> is_digit m2 \<and> s = 47 \<and>
     is_digit y1 \<and> is_digit y2 \<and> is_digit y3 \<and> is_digit y4"
| "is_mm_yyyy _ \<longleftrightarrow> False"

text \<open>\<open>parseInt\<close> on a string of decimal digits.\<close>

definition parseInt :: "jsstring \<Rightarrow> int" where
  "parseInt ds = foldl (\<lambda>a c. a * 10 + (int c - 48)) 0 ds"

text \<open>
  \<open>monthNames[monthIndex]\<close> inside a template literal: an index outside the table gives
  \<open>undefined\<close>, printed as the text \<open>undefined\<close>.
\<close>

definition month_text :: "int \<Rightarrow> jsstring" where
  "month_text monthIndex =
     (if 0 \<le> monthIndex \<and> monthIndex < 12 then monthNames ! nat monthIndex
      else js ''undefined'')"

text \<open>The reformatting of a part that passed the test.\<close>

definition month_year :: "jsstring \<Rightarrow> jsstring" where
  "month_year part =
     (let parts = split_on 47 part;
          month = parts ! 0; year = parts ! 1;
          monthIndex = parseInt month - 1
      in month_text monthIndex @ [32] @ year)"

definition format_part :: "jsstring \<Rightarrow> jsstring" where
  "format_part part = (if is_mm_yyyy part then month_year part else part)"

definition formatDate :: "jsstring \<Rightarrow> jsstring" where
  "formatDate dateStr =
     (if EN_DASH \<in> set dateStr \<or> 45 \<in> set dateStr then
        join ([32, EN_DASH, 32]) (map format_part (map trim (split_by is_dash dateStr)))
      else if is_mm_yyyy dateStr then month_year dateStr
      else dateStr)"


lemma split_by_not_Nil [simp]: "split_by P s \<noteq> []"
  by (induction s) (simp_all split: list.split)

lemma split_by_Cons:
  "split_by P (c # cs) =
     (if P c then [] # split_by P cs
      else (c # hd (split_by P cs)) # tl (split_by P cs))"
  by (cases "split_by P cs") simp_all

declare split_by.simps(2) [simp del]

lemma split_by_append:
  "P d \<Longrightarrow> split_by P (a @ d # b) = split_by P a @ split_by P b"
  by (induction a) (simp_all add: split_by_Cons)

lemma split_by_none: "\<forall>c \<in> set w. \<not> P c \<Longrightarrow> split_by P w = [w]"
  by (induction w) (simp_all add: split_by_Cons)

lemma trim_ws_Cons: "is_ws a \<Longrightarrow> trim (a # s) = trim s"
  by (simp add: trim_def)

lemma trim_ws_snoc: "is_ws a \<Longrightarrow> trim (s @ [a]) = trim s"
proof (cases "\<forall>c \<in> set s. is_ws c")
  case True
  then have "dropWhile is_ws s = []" by simp
  moreover assume "is_ws a"
  ultimately show ?thesis using True by (simp add: trim_def dropWhile_append del: dropWhile_eq_Nil_conv)
next
  case False
  moreover assume "is_ws a"
  ultimately show ?thesis by (auto simp: trim_def dropWhile_append)
qed

lemma trim_keep:
  assumes "s \<noteq> []" "\<not> is_ws (hd s)" "\<not> is_ws (last s)"
  shows "trim s = s"
proof -
  have "dropWhile is_ws s = s" using assms(1,2) by (cases s) simp_all
  moreover have "dropWhile is_ws (rev s) = rev s"
    using assms(1,3) by (cases "rev s") (simp_all add: last_rev[symmetric] hd_rev)
  ultimately show ?thesis by (simp add: trim_def)
qed

lemma monthNames_props:
  "m \<in> set monthNames \<Longrightarrow>
   length m = 3 \<and> \<not> is_ws (hd m) \<and> (\<forall>c \<in> set m. \<not> is_dash c)"
  by (auto simp: monthNames_def js_def is_ws_def is_dash_def EN_DASH_def)

lemma digit_not_ws: "is_digit c \<Longrightarrow> \<not> is_ws c"
  by (auto simp: is_digit_def is_ws_def)

lemma digit_not_dash: "is_digit c \<Longrightarrow> \<not> is_dash c"
  by (auto simp: is_digit_def is_dash_def EN_DASH_def)

lemma is_mm_yyyy_length: "is_mm_yyyy p \<Longrightarrow> length p = 7"
  by (induction p rule: is_mm_yyyy.induct) simp_all

lemma month_year_shape:
  assumes "is_mm_yyyy p"
  shows "month_year p = month_text (parseInt (take 2 p) - 1) @ [32] @ drop 3 p"
proof -
  from assms obtain m1 m2 y1 y2 y3 y4 where
    p: "p = [m1, m2, 47, y1, y2, y3, y4]" and d: "is_digit m1" "is_digit m2"
       "is_digit y1" "is_digit y2" "is_digit y3" "is_digit y4"
    by (induction p rule: is_mm_yyyy.induct) simp_all
  have "split_on 47 p = [[m1, m2], [y1, y2, y3, y4]]"
    using d by (auto simp: p is_digit_def split_on.simps)
  then show ?thesis by (simp add: month_year_def Let_def p)
qed

lemma formatted_range_fixed:
  assumes m1: "m1 \<in> set monthNames" and m2: "m2 \<in> set monthNames"
    and y1: "length y1 = 4" "\<forall>c \<in> set y1. is_digit c"
    and y2: "length y2 = 4" "\<forall>c \<in> set y2. is_digit c"
  shows "formatDate (m1 @ [32] @ y1 @ [32, EN_DASH, 32] @ m2 @ [32] @ y2)
           = m1 @ [32] @ y1 @ [32, EN_DASH, 32] @ m2 @ [32] @ y2"
proof -
  let ?a = "m1 @ [32] @ y1" and ?b = "m2 @ [32] @ y2"
  let ?s = "m1 @ [32] @ y1 @ [32, EN_DASH, 32] @ m2 @ [32] @ y2"
  have s: "?s = (?a @ [32]) @ EN_DASH # (32 # ?b)" by simp
  have ws: "is_ws 32" by (simp add: is_ws_def)
  have nd32: "\<not> is_dash 32" by (simp add: is_dash_def EN_DASH_def)
  have y1ne: "y1 \<noteq> []" and y2ne: "y2 \<noteq> []" using y1(1) y2(1) by auto
  have m1ne: "m1 \<noteq> []" and m2ne: "m2 \<noteq> []"
    using monthNames_props[OF m1] monthNames_props[OF m2] by auto
  have nda: "\<forall>c \<in> set (?a @ [32]). \<not> is_dash c"
    using monthNames_props[OF m1] y1(2) nd32 digit_not_dash by auto
  have ndb: "\<forall>c \<in> set (32 # ?b). \<not> is_dash c"
    using monthNames_props[OF m2] y2(2) nd32 digit_not_dash by auto
  have sp: "split_by is_dash ?s = [?a @ [32], 32 # ?b]"
  proof -
    have "is_dash EN_DASH" by (simp add: is_dash_def)
    from split_by_append[where P=is_dash and d=EN_DASH and a="?a @ [32]" and b="32 # ?b", OF this]
    show ?thesis
      unfolding s split_by_none[OF nda] split_by_none[OF ndb] by simp
  qed
  have ta: "trim (?a @ [32]) = ?a"
  proof -
    have "trim (?a @ [32]) = trim ?a" using trim_ws_snoc[OF ws, of ?a] by simp
    also have "\<dots> = ?a"
      using m1ne y1ne monthNames_props[OF m1] y1(2) digit_not_ws
      by (intro trim_keep) (auto simp: hd_append)
    finally show ?thesis .
  qed
  have tb: "trim (32 # ?b) = ?b"
  proof -
    have "trim (32 # ?b) = trim ?b" by (rule trim_ws_Cons[OF ws])
    also have "\<dots> = ?b"
      using m2ne y2ne monthNames_props[OF m2] y2(2) digit_not_ws
      by (intro trim_keep) (auto simp: hd_append)
    finally show ?thesis .
  qed
  have la: "length ?a = 8" using monthNames_props[OF m1] y1(1) by simp
  have lb: "length ?b = 8" using monthNames_props[OF m2] y2(1) by simp
  have fa: "format_part ?a = ?a" using is_mm_yyyy_length[of ?a] la by (auto simp: format_part_def)
  have fb: "format_part ?b = ?b" using is_mm_yyyy_length[of ?b] lb by (auto simp: format_part_def)
  have "EN_DASH \<in> set ?s" by simp
  then have "formatDate ?s = join [32, EN_DASH, 32] (map format_part (map trim (split_by is_dash ?s)))"
    by (simp add: formatDate_def)
  also have "\<dots> = join [32, EN_DASH, 32] [?a, ?b]"
    unfolding sp using ta tb fa fb by simp
  finally show ?thesis by simp
qed


lemma split_by_parts: "w \<in> set (split_by P s) \<Longrightarrow> \<forall>c \<in> set w. \<not> P c"
proof (induction s arbitrary: w)
  case Nil
  then show ?case by simp
next
  case (Cons c cs)
  have hd_in: "hd (split_by P cs) \<in> set (split_by P cs)" by simp
  have tl_in: "set (tl (split_by P cs)) \<subseteq> set (split_by P cs)"
    by (simp add: list.set_sel(2) subsetI)
  show ?case
  proof (cases "P c")
    case True
    with Cons show ?thesis by (auto simp: split_by_Cons)
  next
    case False
    with Cons.prems have "w = c # hd (split_by P cs) \<or> w \<in> set (tl (split_by P cs))"
      by (simp add: split_by_Cons)
    then show ?thesis using Cons.IH[OF hd_in] Cons.IH tl_in False by auto
  qed
qed

lemma length_split_by: "length (split_by P s) = Suc (length (filter P s))"
  by (induction s) (simp_all add: split_by_Cons)

lemma set_trim: "set (trim s) \<subseteq> set s"
proof -
  have "set (trim s) \<subseteq> set (dropWhile is_ws s)"
    unfolding trim_def using set_dropWhileD by fastforce
  also have "\<dots> \<subseteq> set s" using set_dropWhileD by fastforce
  finally show ?thesis .
qed

lemma trim_idem: "trim (trim s) = trim s"
proof (cases "trim s = []")
  case True
  have "trim [] = []" by (simp add: trim_def)
  with True show ?thesis by simp
next
  case False
  let ?u = "dropWhile is_ws s"
  let ?v = "dropWhile is_ws (rev ?u)"
  have v: "trim s = rev ?v" by (simp add: trim_def)
  with False have vne: "?v \<noteq> []" by simp
  have une: "?u \<noteq> []"
  proof
    assume e: "?u = []"
    have "?v = []" unfolding e by simp
    with vne show False by simp
  qed
  have "\<not> is_ws (hd ?v)" using vne hd_dropWhile by blast
  then have last: "\<not> is_ws (last (trim s))" using vne by (simp add: v last_rev)
  have "\<not> is_ws (hd ?u)" using une hd_dropWhile by blast
  moreover have "hd (rev ?v) = hd ?u"
  proof -
    have "rev ?u = takeWhile is_ws (rev ?u) @ ?v" by simp
    then have "?u = rev ?v @ rev (takeWhile is_ws (rev ?u))"
      by (metis rev_append rev_rev_ident)
    then show ?thesis using vne by (metis hd_append2 rev_is_Nil_conv)
  qed
  ultimately have "\<not> is_ws (hd (trim s))" by (simp add: v)
  with False last show ?thesis by (intro trim_keep)
qed

lemma monthNames_chars:
  "m \<in> set monthNames \<Longrightarrow>
   length m = 3 \<and> (\<forall>c \<in> set m. \<not> is_dash c \<and> \<not> is_ws c)"
  by (auto simp: monthNames_def js_def is_ws_def is_dash_def EN_DASH_def)

lemma month_text_props:
  "(length (month_text i) = 3 \<or> length (month_text i) = 9) \<and>
   (\<forall>c \<in> set (month_text i). \<not> is_dash c \<and> \<not> is_ws c)"
proof (cases "0 \<le> i \<and> i < 12")
  case True
  have "length monthNames = 12" by (simp add: monthNames_def)
  with True have "nat i < length monthNames" by arith
  then have "monthNames ! nat i \<in> set monthNames" by (rule nth_mem)
  from monthNames_chars[OF this] show ?thesis using True by (simp add: month_text_def)
next
  case False
  then show ?thesis
    by (auto simp: month_text_def js_def is_ws_def is_dash_def EN_DASH_def)
qed

lemma month_year_props:
  assumes "is_mm_yyyy p"
  shows "\<not> is_mm_yyyy (month_year p) \<and> trim (month_year p) = month_year p \<and>
         (\<forall>c \<in> set (month_year p). \<not> is_dash c)"
proof -
  from assms obtain m1 m2 y1 y2 y3 y4 where
    p: "p = [m1, m2, 47, y1, y2, y3, y4]" and d: "is_digit m1" "is_digit m2"
       "is_digit y1" "is_digit y2" "is_digit y3" "is_digit y4"
    by (induction p rule: is_mm_yyyy.induct) simp_all
  let ?m = "month_text (parseInt (take 2 p) - 1)"
  have my: "month_year p = ?m @ [32, y1, y2, y3, y4]"
    using month_year_shape[OF assms] by (simp add: p)
  have mne: "?m \<noteq> []" using month_text_props[of "parseInt (take 2 p) - 1"] by auto
  have len: "length (month_year p) \<noteq> 7"
    using month_text_props[of "parseInt (take 2 p) - 1"] by (auto simp: my)
  then have a: "\<not> is_mm_yyyy (month_year p)" using is_mm_yyyy_length by blast
  have "\<not> is_ws (hd (month_year p))"
    using mne month_text_props[of "parseInt (take 2 p) - 1"] by (simp add: my hd_append)
  moreover have "\<not> is_ws (last (month_year p))" using d(6) digit_not_ws by (simp add: my)
  ultimately have b: "trim (month_year p) = month_year p"
    by (intro trim_keep) (simp_all add: my)
  have "\<not> is_dash 32" by (simp add: is_dash_def EN_DASH_def)
  then have c: "\<forall>c \<in> set (month_year p). \<not> is_dash c"
    using month_text_props[of "parseInt (take 2 p) - 1"] d digit_not_dash by (auto simp: my)
  from a b c show ?thesis by blast
qed

lemma format_part_props:
  assumes "\<forall>c \<in> set q. \<not> is_dash c" "trim q = q"
  shows "format_part (format_part q) = format_part q \<and>
         trim (format_part q) = format_part q \<and>
         (\<forall>c \<in> set (format_part q). \<not> is_dash c)"
  using assms month_year_props[of q] by (cases "is_mm_yyyy q") (simp_all add: format_part_def)

lemma map_trim_split_join_aux:
  "sep = [32, EN_DASH, 32] \<Longrightarrow> qs \<noteq> [] \<Longrightarrow>
   \<forall>q \<in> set qs. \<forall>c \<in> set q. \<not> is_dash c \<Longrightarrow>
   map trim (split_by is_dash (join sep qs)) = map trim qs"
proof (induction sep qs rule: join.induct)
  case (1 sep)
  then show ?case by simp
next
  case (2 sep x)
  then show ?case by (simp add: split_by_none)
next
  case (3 sep x y ys)
  let ?J = "join [32, EN_DASH, 32] (y # ys)"
  note sep = "3.prems"(1)
  have ws: "is_ws 32" by (simp add: is_ws_def)
  have nd32: "\<not> is_dash 32" by (simp add: is_dash_def EN_DASH_def)
  have d: "is_dash EN_DASH" by (simp add: is_dash_def)
  have ndx: "\<forall>c \<in> set (x @ [32]). \<not> is_dash c" using "3.prems"(3) nd32 by simp
  have j: "join [32, EN_DASH, 32] (x # y # ys) = (x @ [32]) @ EN_DASH # (32 # ?J)" by simp
  have "split_by is_dash (join [32, EN_DASH, 32] (x # y # ys))
         = [x @ [32]] @ split_by is_dash (32 # ?J)"
    unfolding j
    using split_by_append[where P=is_dash and d=EN_DASH and a="x @ [32]" and b="32 # ?J", OF d]
    by (simp only: split_by_none[OF ndx])
  also have "\<dots> = [x @ [32]] @ (32 # hd (split_by is_dash ?J)) # tl (split_by is_dash ?J)"
    using nd32 by (simp add: split_by_Cons)
  finally have "map trim (split_by is_dash (join [32, EN_DASH, 32] (x # y # ys)))
         = trim x # trim (hd (split_by is_dash ?J)) # map trim (tl (split_by is_dash ?J))"
    using trim_ws_snoc[OF ws, of x] trim_ws_Cons[OF ws] by simp
  also have "\<dots> = trim x # map trim (split_by is_dash ?J)"
    by (cases "split_by is_dash ?J") simp_all
  also have "\<dots> = trim x # map trim (y # ys)"
    using "3.IH" "3.prems"(3) sep by simp
  finally show ?case by (simp add: sep)
qed

lemma map_trim_split_join:
  "qs \<noteq> [] \<Longrightarrow> \<forall>q \<in> set qs. \<forall>c \<in> set q. \<not> is_dash c \<Longrightarrow>
   map trim (split_by is_dash (join [32, EN_DASH, 32] qs)) = map trim qs"
  by (rule map_trim_split_join_aux) simp_all

lemma formatDate_idem: "formatDate (formatDate s) = formatDate s"
proof (cases "EN_DASH \<in> set s \<or> 45 \<in> set s")
  case True
  let ?sep = "[32, EN_DASH, 32]"
  let ?qs = "map format_part (map trim (split_by is_dash s))"
  have out: "formatDate s = join ?sep ?qs" using True by (simp add: formatDate_def)
  have "filter is_dash s \<noteq> []"
    using True by (auto simp: filter_empty_conv is_dash_def)
  then have "2 \<le> length ?qs" by (cases "filter is_dash s") (simp_all add: length_split_by)
  then obtain q q' rest where qs: "?qs = q # q' # rest"
    by (cases ?qs; cases "tl ?qs") auto
  have props: "\<forall>q \<in> set ?qs. format_part q = q \<and> trim q = q \<and> (\<forall>c \<in> set q. \<not> is_dash c)"
  proof
    fix q assume "q \<in> set ?qs"
    then obtain p where p: "p \<in> set (split_by is_dash s)" and q: "q = format_part (trim p)"
      by auto
    have "\<forall>c \<in> set (trim p). \<not> is_dash c" using split_by_parts[OF p] set_trim by blast
    from format_part_props[OF this trim_idem] show
      "format_part q = q \<and> trim q = q \<and> (\<forall>c \<in> set q. \<not> is_dash c)" by (simp add: q)
  qed
  have has: "EN_DASH \<in> set (join ?sep ?qs)" unfolding qs by simp
  have "formatDate (join ?sep ?qs)
          = join ?sep (map format_part (map trim (split_by is_dash (join ?sep ?qs))))"
    using has by (simp add: formatDate_def)
  also have "map trim (split_by is_dash (join ?sep ?qs)) = map trim ?qs"
    by (rule map_trim_split_join) (use qs props in auto)
  also have "map trim ?qs = ?qs" using props by (simp add: map_idI)
  also have "map format_part ?qs = ?qs" using props by (simp add: map_idI)
  finally show ?thesis by (simp add: out)
next
  case False
  show ?thesis
  proof (cases "is_mm_yyyy s")
    case True
    have out: "formatDate s = month_year s" using False True by (simp add: formatDate_def)
    from month_year_props[OF True] have
      "\<not> is_mm_yyyy (month_year s)" "\<forall>c \<in> set (month_year s). \<not> is_dash c" by auto
    then have "formatDate (month_year s) = month_year s"
      by (auto simp: formatDate_def is_dash_def)
    then show ?thesis by (simp add: out)
  next
    case nm: False
    with False have "formatDate s = s" by (simp add: formatDate_def)
    then show ?thesis by simp
  qed
qed


text \<open>
  Claim C4. \<open>formatDate\<close> leaves every string it has produced unchanged, in particular
  every string of the form \<open>Mon YYYY - Mon YYYY\<close> written with an en dash between
  spaces, and it maps \<open>06/2022 - Current\<close> to \<open>Jun 2022 - Current\<close> with an en
  dash. A string with a dash is split at every en dash and hyphen, each part is trimmed,
  a part of the shape MM/YYYY becomes the entry MM - 1 of the table of month
  abbreviations (the text \<open>undefined\<close> when MM is not a month), a space and YYYY, any
  other part is kept, and the parts are joined by an en dash between spaces.
\<close>

theorem formatDate_idempotent:
  "formatDate (formatDate s) = formatDate s \<and>
   (m1 \<in> set monthNames \<and> m2 \<in> set monthNames \<and>
    length y1 = 4 \<and> (\<forall>c \<in> set y1. is_digit c) \<and>
    length y2 = 4 \<and> (\<forall>c \<in> set y2. is_digit c) \<longrightarrow>
    formatDate (m1 @ [32] @ y1 @ [32, EN_DASH, 32] @ m2 @ [32] @ y2)
      = m1 @ [32] @ y1 @ [32, EN_DASH, 32] @ m2 @ [32] @ y2) \<and>
   formatDate (js ''06/2022 - Current'') = js ''Jun 2022 '' @ [EN_DASH] @ js '' Current'' \<and>
   (EN_DASH \<in> set s \<or> 45 \<in> set s \<longrightarrow>
    formatDate s
      = join [32, EN_DASH, 32] (map (\<lambda>p. format_part (trim p)) (split_by is_dash s))) \<and>
   (is_mm_yyyy p \<longrightarrow>
    format_part p = month_text (parseInt (take 2 p) - 1) @ [32] @ drop 3 p) \<and>
   (\<not> is_mm_yyyy p \<longrightarrow> format_part p = p) \<and>
   (1 \<le> n \<and> n \<le> 12 \<longrightarrow> month_text (n - 1) = monthNames ! nat (n - 1))"
proof -
  have ex: "formatDate (js ''06/2022 - Current'') = js ''Jun 2022 '' @ [EN_DASH] @ js '' Current''"
    by (simp add: formatDate_def js_def EN_DASH_def is_dash_def trim_def is_ws_def format_part_def
      month_year_def is_digit_def parseInt_def month_text_def monthNames_def Let_def split_on.simps
      split_by.simps)
  have st: "EN_DASH \<in> set s \<or> 45 \<in> set s \<longrightarrow>
    formatDate s
      = join [32, EN_DASH, 32] (map (\<lambda>p. format_part (trim p)) (split_by is_dash s))"
    by (simp add: formatDate_def comp_def)
  have fp: "is_mm_yyyy p \<longrightarrow>
    format_part p = month_text (parseInt (take 2 p) - 1) @ [32] @ drop 3 p"
    using month_year_shape[of p] by (simp add: format_part_def)
  have np: "\<not> is_mm_yyyy p \<longrightarrow> format_part p = p" by (simp add: format_part_def)
  have mt: "1 \<le> n \<and> n \<le> 12 \<longrightarrow> month_text (n - 1) = monthNames ! nat (n - 1)"
    by (simp add: month_text_def)
  show ?thesis
    using formatDate_idem[of s] formatted_range_fixed[of m1 m2 y1 y2] ex st fp np mt
    by blast
qed

theorem formatDate_idempotent_witness:
  "formatDate (js ''Jan 2020 '' @ [EN_DASH] @ js '' Mar 2022'')
     = js ''Jan 2020 '' @ [EN_DASH] @ js '' Mar 2022'' \<and>
   formatDate (formatDate (js ''3/2020-04/2021 - now''))
     = formatDate (js ''3/2020-04/2021 - now'') \<and>
   formatDate (js ''3/2020-04/2021 - now'')
     = join [32, EN_DASH, 32] (map (\<lambda>p. format_part (trim p))
         (split_by is_dash (js ''3/2020-04/2021 - now''))) \<and>
   format_part (js ''06/2022'') = js ''Jun 2022'' \<and>
   format_part (js ''13/2022'') = js ''undefined 2022'' \<and>
   format_part (js ''Current'') = js ''Current'' \<and>
   month_text (6 - 1) = js ''Jun''"
proof -
  have jan: "js ''Jan'' \<in> set monthNames" and mar: "js ''Mar'' \<in> set monthNames"
    by (simp_all add: monthNames_def)
  have y: "length (js ''2020'') = 4" "\<forall>c \<in> set (js ''2020''). is_digit c"
          "length (js ''2022'') = 4" "\<forall>c \<in> set (js ''2022''). is_digit c"
    by (simp_all add: js_def is_digit_def)
  have d: "EN_DASH \<in> set (js ''3/2020-04/2021 - now'') \<or> 45 \<in> set (js ''3/2020-04/2021 - now'')"
    by (simp add: js_def)
  have p1: "is_mm_yyyy (js ''06/2022'')" and p2: "is_mm_yyyy (js ''13/2022'')"
    and p3: "\<not> is_mm_yyyy (js ''Current'')"
    by (simp_all add: js_def is_digit_def)
  have n: "(1::int) \<le> 6 \<and> (6::int) \<le> 12" by simp
  have e1: "month_text (parseInt (take 2 (js ''06/2022'')) - 1) @ [32] @ drop 3 (js ''06/2022'')
            = js ''Jun 2022''"
    by (simp add: js_def parseInt_def month_text_def monthNames_def)
  have e2: "month_text (parseInt (take 2 (js ''13/2022'')) - 1) @ [32] @ drop 3 (js ''13/2022'')
            = js ''undefined 2022''"
    by (simp add: js_def parseInt_def month_text_def monthNames_def)
  have e3: "monthNames ! nat (6 - 1) = js ''Jun''"
    by (simp add: monthNames_def)
  have e4: "js ''Jan'' @ [32] @ js ''2020'' @ [32, EN_DASH, 32] @ js ''Mar'' @ [32] @ js ''2022''
            = js ''Jan 2020 '' @ [EN_DASH] @ js '' Mar 2022''"
    by (simp add: js_def)
  from formatDate_idempotent[of "js ''3/2020-04/2021 - now''" "js ''Jan''" "js ''Mar''"
        "js ''2020''" "js ''2022''" "js ''06/2022''" 6]
       formatDate_idempotent[of "js ''3/2020-04/2021 - now''" "js ''Jan''" "js ''Mar''"
        "js ''2020''" "js ''2022''" "js ''13/2022''" 6]
       formatDate_idempotent[of "js ''3/2020-04/2021 - now''" "js ''Jan''" "js ''Mar''"
        "js ''2020''" "js ''2022''" "js ''Current''" 6]
       jan mar y d p1 p2 p3 n
  show ?thesis unfolding e1 e2 e3 e4 by simp
qed

section \<open>The document\<close>

text \<open>
  The PDF library is outside the repository. Of a document the model keeps what the source
  does to it: the pages added, in order, each with its size and the drawing operations
  made on it, in order. The runtime supplies the two embedded fonts' measures and the
  case mappings of strings. A library call that throws, for a character a font cannot
  encode, ends the request in the endpoint below with the rendering's error.
\<close>

datatype face = Regular | Bold

datatype color = BLACK | DARK_BLUE | MEDIUM_BLUE | GRAY | DARK_GRAY

record text_op =
  op_text :: jsstring
  op_x :: rat
  op_y :: rat
  op_size :: rat
  op_face :: face
  op_color :: color

datatype draw_op =
    DrawText text_op
  | DrawLine rat rat rat rat rat color

record page =
  page_width :: rat
  page_height :: rat
  page_ops :: "draw_op list"

record runtime =
  regular :: font
  bold :: font
  toUpperCase :: "jsstring \<Rightarrow> jsstring"
  toLowerCase :: "jsstring \<Rightarrow> jsstring"


definition MARGIN_TOP :: rat where "MARGIN_TOP = 72"
definition MARGIN_BOTTOM :: rat where "MARGIN_BOTTOM = 50"
definition MARGIN_LEFT :: rat where "MARGIN_LEFT = 50"
definition MARGIN_RIGHT :: rat where "MARGIN_RIGHT = 50"
definition PAGE_WIDTH :: rat where "PAGE_WIDTH = 595"
definition PAGE_HEIGHT :: rat where "PAGE_HEIGHT = 842"
definition CONTENT_WIDTH :: rat where "CONTENT_WIDTH = PAGE_WIDTH - MARGIN_LEFT - MARGIN_RIGHT"
definition NAME_SIZE :: rat where "NAME_SIZE = 24"
definition CONTACT_SIZE :: rat where "CONTACT_SIZE = 9"
definition SECTION_HEADER_SIZE :: rat where "SECTION_HEADER_SIZE = 14"
definition BODY_SIZE :: rat where "BODY_SIZE = 11"
definition NAME_LINE_HEIGHT :: rat where "NAME_LINE_HEIGHT = NAME_SIZE * (8 / 10)"
definition CONTACT_LINE_HEIGHT :: rat where "CONTACT_LINE_HEIGHT = CONTACT_SIZE * (15 / 10)"
definition SECTION_LINE_HEIGHT :: rat where "SECTION_LINE_HEIGHT = SECTION_HEADER_SIZE * (15 / 10)"
definition BODY_LINE_HEIGHT :: rat where "BODY_LINE_HEIGHT = BODY_SIZE * (14 / 10)"
definition left :: rat where "left = MARGIN_LEFT"
definition right :: rat where "right = PAGE_WIDTH - MARGIN_RIGHT"

text \<open>
  The state of \<open>generateResumePdf\<close>: the pages so far (\<open>page\<close> is always the last one
  added), the cursor \<open>y\<close>, and the two variables of the skills section.
\<close>

record flow =
  st_pages :: "page list"
  st_y :: rat
  st_inSkillsSection :: bool
  st_skills :: "jsstring list"

definition new_page :: page where
  "new_page = \<lparr> page_width = PAGE_WIDTH, page_height = PAGE_HEIGHT, page_ops = [] \<rparr>"

text \<open>\<open>page.drawText\<close>, \<open>page.drawLine\<close>: one more operation on the current page.\<close>

definition draw :: "draw_op list \<Rightarrow> flow \<Rightarrow> flow" where
  "draw os st =
     (case rev (st_pages st) of
        [] \<Rightarrow> st
      | p # ps \<Rightarrow> st \<lparr> st_pages := rev ps @ [p \<lparr> page_ops := page_ops p @ os \<rparr>] \<rparr>)"

definition move_down :: "rat \<Rightarrow> flow \<Rightarrow> flow" where
  "move_down h st = st \<lparr> st_y := st_y st - h \<rparr>"

text \<open>The pagination check: \<open>if (y < MARGIN_BOTTOM) { page = pdfDoc.addPage(...); y = ... }\<close>.\<close>

definition paginate :: "flow \<Rightarrow> flow" where
  "paginate st =
     (if st_y st < MARGIN_BOTTOM
      then st \<lparr> st_pages := st_pages st @ [new_page], st_y := PAGE_HEIGHT - MARGIN_TOP \<rparr>
      else st)"

definition text_at ::
  "rat \<Rightarrow> rat \<Rightarrow> face \<Rightarrow> color \<Rightarrow> jsstring \<Rightarrow> rat \<Rightarrow> draw_op list" where
  "text_at x sz f col s y =
     [DrawText \<lparr> op_text = s, op_x = x, op_y = y, op_size = sz, op_face = f, op_color = col \<rparr>]"

text \<open>
  The loops over wrapped lines. In the header: draw the line at \<open>y\<close>, move down. In the
  body: draw, move down, check for a new page.
\<close>

fun put_lines :: "(jsstring \<Rightarrow> rat \<Rightarrow> draw_op list) \<Rightarrow> rat \<Rightarrow> jsstring list \<Rightarrow> flow \<Rightarrow> flow" where
  "put_lines d h [] st = st"
| "put_lines d h (l # ls) st = put_lines d h ls (move_down h (draw (d l (st_y st)) st))"

fun flow_lines :: "(jsstring \<Rightarrow> rat \<Rightarrow> draw_op list) \<Rightarrow> rat \<Rightarrow> jsstring list \<Rightarrow> flow \<Rightarrow> flow" where
  "flow_lines d h [] st = st"
| "flow_lines d h (l # ls) st =
     flow_lines d h ls (paginate (move_down h (draw (d l (st_y st)) st)))"


section \<open>drawTextWithBold\<close>

definition STAR :: jschar where "STAR = 42"

text \<open>
  A match of \<open>\*\*[^*]+\*\*\<close> at the start of a string: the matched text and what follows
  it. The greedy \<open>[^*]+\<close> takes every unit up to the next star; giving units back cannot
  help, since the unit after a shorter run is not a star.
\<close>

definition match_bold :: "jsstring \<Rightarrow> (jsstring \<times> jsstring) option" where
  "match_bold s =
     (let c = takeWhile (\<lambda>x. x \<noteq> STAR) (drop 2 s);
          r = dropWhile (\<lambda>x. x \<noteq> STAR) (drop 2 s)
      in if take 2 s = [STAR, STAR] \<and> c \<noteq> [] \<and> take 2 r = [STAR, STAR]
         then Some ([STAR, STAR] @ c @ [STAR, STAR], drop 2 r) else None)"

lemma match_bold_shorter: "match_bold s = Some (m, r) \<Longrightarrow> length r < length s"
proof -
  assume a: "match_bold s = Some (m, r)"
  let ?d = "dropWhile (\<lambda>x. x \<noteq> STAR) (drop 2 s)"
  from a have r: "r = drop 2 ?d" and t: "take 2 s = [STAR, STAR]"
    by (auto simp: match_bold_def Let_def split: if_splits)
  have "length ?d \<le> length (drop 2 s)" by (rule length_dropWhile_le)
  moreover have "2 \<le> length s" using t by (cases s; cases "tl s") auto
  ultimately show ?thesis by (simp add: r)
qed

text \<open>
  \<open>text.split(/(\*\*[^*]+\*\*)/g)\<close>: the text between the matches and, for the capturing
  group, the matches themselves. \<open>acc\<close> is the text since the last match.
\<close>

function split_bold :: "jsstring \<Rightarrow> jsstring \<Rightarrow> jsstring list" where
  "split_bold acc [] = [acc]"
| "split_bold acc (c # cs) =
     (case match_bold (c # cs) of
        Some (m, r) \<Rightarrow> acc # m # split_bold [] r
      | None \<Rightarrow> split_bold (acc @ [c]) cs)"
  by pat_completeness auto
termination
  by (relation "measure (\<lambda>(acc, s). length s)") (auto dest: match_bold_shorter)

definition is_bold_part :: "jsstring \<Rightarrow> bool" where
  "is_bold_part part \<longleftrightarrow> take 2 part = [STAR, STAR] \<and> take 2 (rev part) = [STAR, STAR]"

text \<open>\<open>part.slice(2, -2)\<close>: empty when the part has fewer than four units.\<close>

definition slice_2_m2 :: "jsstring \<Rightarrow> jsstring" where
  "slice_2_m2 part = take (length part - 4) (drop 2 part)"

text \<open>The loop over the parts, with the offset \<open>offsetX\<close>.\<close>

fun draw_parts ::
  "runtime \<Rightarrow> rat \<Rightarrow> color \<Rightarrow> rat \<Rightarrow> rat \<Rightarrow> jsstring list \<Rightarrow> draw_op list" where
  "draw_parts rt sz col y offsetX [] = []"
| "draw_parts rt sz col y offsetX (part # parts) =
     (if is_bold_part part
      then text_at offsetX sz Bold col (slice_2_m2 part) y @
           draw_parts rt sz col y (offsetX + bold rt (slice_2_m2 part) sz) parts
      else text_at offsetX sz Regular col part y @
           draw_parts rt sz col y (offsetX + regular rt part sz) parts)"

definition drawTextWithBold ::
  "runtime \<Rightarrow> jsstring \<Rightarrow> rat \<Rightarrow> rat \<Rightarrow> rat \<Rightarrow> color \<Rightarrow> draw_op list" where
  "drawTextWithBold rt text x y sz col = draw_parts rt sz col y x (split_bold [] text)"


section \<open>The body classifier's patterns\<close>

text \<open>Line terminators: what \<open>.\<close> does not match.\<close>

definition is_lt :: "jschar \<Rightarrow> bool" where
  "is_lt c \<longleftrightarrow> c = 10 \<or> c = 13 \<or> c = 8232 \<or> c = 8233"

definition dots :: "jsstring \<Rightarrow> bool" where
  "dots s \<longleftrightarrow> s \<noteq> [] \<and> list_all (\<lambda>c. \<not> is_lt c) s"

definition COLON :: jschar where "COLON = 58"

definition AT :: jsstring where "AT = [32, 97, 116, 32]"

text \<open>The first index of a list at which a partial function succeeds, with its result.\<close>

fun first_some :: "(nat \<Rightarrow> 'a option) \<Rightarrow> nat list \<Rightarrow> 'a option" where
  "first_some f [] = None"
| "first_some f (i # is) = (case f i of Some r \<Rightarrow> Some r | None \<Rightarrow> first_some f is)"

text \<open>
  \<open>/ at .+:.+/.test(line)\<close>: somewhere the text \<open> at \<close>, then one or more units that are
  not line terminators, a colon, and one more such unit.
\<close>

definition colon_after :: "jsstring \<Rightarrow> bool" where
  "colon_after r \<longleftrightarrow>
     list_ex (\<lambda>j. dots (take j r) \<and> take 1 (drop j r) = [COLON] \<and> dots (take 1 (drop (j + 1) r)))
       [1..<length r]"

definition isJobExperience :: "jsstring \<Rightarrow> bool" where
  "isJobExperience line \<longleftrightarrow>
     list_ex (\<lambda>i. take 4 (drop i line) = AT \<and> colon_after (drop (i + 4) line))
       [0..<length line]"

text \<open>
  \<open>line.match(/^(.+?) at (.+?):\s*(.+)$/)\<close>, by the backtracking order of the matcher:
  the lazy groups try the shortest text first, the greedy \<open>\s*\<close> the longest; the last
  group must reach the end of the line.
\<close>

definition match_period :: "jsstring \<Rightarrow> jsstring option" where
  "match_period r =
     first_some (\<lambda>k. if dots (drop k r) then Some (drop k r) else None)
       (rev [0..<Suc (length (takeWhile is_ws r))])"

definition match_company :: "jsstring \<Rightarrow> (jsstring \<times> jsstring) option" where
  "match_company r =
     first_some (\<lambda>j. if dots (take j r) \<and> take 1 (drop j r) = [COLON]
                     then map_option (\<lambda>period. (take j r, period)) (match_period (drop (j + 1) r))
                     else None)
       [1..<length r]"

definition job_match :: "jsstring \<Rightarrow> (jsstring \<times> jsstring \<times> jsstring) option" where
  "job_match line =
     first_some (\<lambda>i. if dots (take i line) \<and> take 4 (drop i line) = AT
                     then map_option (\<lambda>(companyName, period). (take i line, companyName, period))
                            (match_company (drop (i + 4) line))
                     else None)
       [1..<length line]"

lemma job_match_example:
  "job_match (js ''Senior Engineer at Acme Corp: 01/2020 - 02/2022'')
     = Some (js ''Senior Engineer'', js ''Acme Corp'', js ''01/2020 - 02/2022'')"
  by (simp add: job_match_def match_company_def match_period_def dots_def AT_def COLON_def
      is_lt_def is_ws_def js_def upt_rec[of _ "numeral _"] upt_rec[of _ "Suc _"])


section \<open>generateResumePdf\<close>

definition endsWith_colon :: "jsstring \<Rightarrow> bool" where
  "endsWith_colon line \<longleftrightarrow> take 1 (rev line) = [COLON]"

definition startsWith_dot :: "jsstring \<Rightarrow> bool" where
  "startsWith_dot line \<longleftrightarrow> take 1 line = [MIDDLE_DOT]"

text \<open>The section header branch.\<close>

definition section_header :: "runtime \<Rightarrow> jsstring \<Rightarrow> flow \<Rightarrow> flow" where
  "section_header rt line st =
     (let st1 = move_down 12 st;
          sectionLines = wrapText line (bold rt) SECTION_HEADER_SIZE CONTENT_WIDTH;
          st2 = flow_lines (text_at left SECTION_HEADER_SIZE Bold DARK_BLUE) SECTION_LINE_HEIGHT
                  sectionLines st1
      in if toLowerCase rt line = js ''skills:'' then st2 \<lparr> st_inSkillsSection := True \<rparr>
         else st2)"

text \<open>The job entry branch, after a successful match.\<close>

definition job_entry :: "runtime \<Rightarrow> jsstring \<Rightarrow> jsstring \<Rightarrow> jsstring \<Rightarrow> flow \<Rightarrow> flow" where
  "job_entry rt jobTitle companyName period st =
     (let st1 = move_down 8 st;
          titleLines = wrapText (trim jobTitle) (bold rt) (BODY_SIZE + 1) (CONTENT_WIDTH - 10);
          st2 = flow_lines (text_at (left + 10) (BODY_SIZE + 1) Bold MEDIUM_BLUE)
                  (BODY_LINE_HEIGHT + 2) titleLines st1;
          companyLines = wrapText (trim companyName) (regular rt) BODY_SIZE (CONTENT_WIDTH - 10);
          st3 = flow_lines (text_at (left + 10) BODY_SIZE Regular GRAY) BODY_LINE_HEIGHT
                  companyLines st2;
          formattedPeriod = formatDate (trim period);
          periodLines = wrapText formattedPeriod (regular rt) (BODY_SIZE - 1) (CONTENT_WIDTH - 10);
          st4 = flow_lines (text_at (left + 10) (BODY_SIZE - 1) Regular GRAY)
                  (BODY_LINE_HEIGHT - 2) periodLines st3
      in move_down 4 st4)"

text \<open>The skills category branch: \<open>categoryName = line.trim()\<close>.\<close>

definition skills_category :: "runtime \<Rightarrow> jsstring \<Rightarrow> flow \<Rightarrow> flow" where
  "skills_category rt line st =
     (let categoryName = trim line;
          categoryLines = wrapText categoryName (bold rt) (BODY_SIZE + 1) (CONTENT_WIDTH - 20)
      in flow_lines (text_at (left + 10) (BODY_SIZE + 1) Bold MEDIUM_BLUE)
           (BODY_LINE_HEIGHT + 2) categoryLines st)"

text \<open>The regular body text branch.\<close>

definition body_text :: "runtime \<Rightarrow> jsstring \<Rightarrow> flow \<Rightarrow> flow" where
  "body_text rt line st =
     (let wrappedLines = wrapText line (regular rt) BODY_SIZE (CONTENT_WIDTH - 10)
      in flow_lines (\<lambda>wrappedLine y. drawTextWithBold rt wrappedLine (left + 10) y BODY_SIZE BLACK)
           BODY_LINE_HEIGHT wrappedLines st)"

text \<open>
  One iteration of the loop over the body lines. A blank line moves the cursor and
  \<open>continue\<close>s, past the check at the end of the iteration.
\<close>

definition body_line :: "runtime \<Rightarrow> jsstring \<Rightarrow> flow \<Rightarrow> flow" where
  "body_line rt bodyLine st =
     (let line = trim bodyLine
      in if line = [] then move_down 6 st
         else paginate
           (if endsWith_colon line then section_header rt line st
            else if isJobExperience line then
              (case job_match line of
                 Some (jobTitle, companyName, period) \<Rightarrow> job_entry rt jobTitle companyName period st
               | None \<Rightarrow> st)
            else if startsWith_dot line then skills_category rt line st
            else body_text rt line st))"

fun body_loop :: "runtime \<Rightarrow> jsstring list \<Rightarrow> flow \<Rightarrow> flow" where
  "body_loop rt [] st = st"
| "body_loop rt (bodyLine # bodyLines) st = body_loop rt bodyLines (body_line rt bodyLine st)"

text \<open>The branch after the loop, for skills collected in \<open>skills\<close>.\<close>

definition remaining_skills :: "runtime \<Rightarrow> flow \<Rightarrow> flow" where
  "remaining_skills rt st =
     (if st_inSkillsSection st \<and> st_skills st \<noteq> [] then
        (let skillsText = join [32] (st_skills st);
             wrappedSkillLines = wrapText skillsText (regular rt) BODY_SIZE (CONTENT_WIDTH - 20)
         in flow_lines (text_at (left + 20) BODY_SIZE Regular DARK_GRAY) BODY_LINE_HEIGHT
              wrappedSkillLines st)
      else st)"

text \<open>The header: name, contact line, rule.\<close>

definition truthy :: "jsstring option \<Rightarrow> jsstring list" where
  "truthy v = (case v of None \<Rightarrow> [] | Some s \<Rightarrow> (if s = [] then [] else [s]))"

definition draw_name :: "runtime \<Rightarrow> jsstring option \<Rightarrow> flow \<Rightarrow> flow" where
  "draw_name rt nm st =
     (case truthy nm of
        [] \<Rightarrow> move_down NAME_LINE_HEIGHT st
      | n # _ \<Rightarrow>
          move_down 2
            (put_lines (text_at left NAME_SIZE Bold DARK_BLUE) NAME_LINE_HEIGHT
               (wrapText (toUpperCase rt n) (bold rt) NAME_SIZE CONTENT_WIDTH) st))"

definition draw_contact :: "runtime \<Rightarrow> parsed_resume \<Rightarrow> flow \<Rightarrow> flow" where
  "draw_contact rt r st =
     (let contactParts = truthy (location r) @ truthy (phone r) @ truthy (email r) @ truthy (linkedin r)
      in if contactParts \<noteq> [] then
           (let contactLine = join [32, BULLET, 32] contactParts;
                contactLines = wrapText contactLine (regular rt) CONTACT_SIZE CONTENT_WIDTH
            in move_down 4
                 (put_lines (text_at left CONTACT_SIZE Regular DARK_GRAY) CONTACT_LINE_HEIGHT
                    contactLines st))
         else st)"

definition draw_rule :: "flow \<Rightarrow> flow" where
  "draw_rule st = move_down 16 (draw [DrawLine left (st_y st) right (st_y st) (3 / 2) DARK_BLUE] st)"

definition initial_flow :: flow where
  "initial_flow = \<lparr> st_pages = [new_page], st_y = PAGE_HEIGHT - MARGIN_TOP,
                    st_inSkillsSection = False, st_skills = [] \<rparr>"

text \<open>
  The state before the loop over the body lines, the state after it, and the document
  that is saved.
\<close>

definition header_flow :: "runtime \<Rightarrow> parsed_resume \<Rightarrow> flow" where
  "header_flow rt r = draw_rule (draw_contact rt r (draw_name rt (name r) initial_flow))"

definition body_flow :: "runtime \<Rightarrow> jsstring \<Rightarrow> flow" where
  "body_flow rt resumeText =
     (let r = parseResume resumeText
      in body_loop rt (split_on 10 (body r)) (header_flow rt r))"

definition generateResumePdf :: "runtime \<Rightarrow> jsstring \<Rightarrow> page list" where
  "generateResumePdf rt resumeText = st_pages (remaining_skills rt (body_flow rt resumeText))"

subsection \<open>What the steps keep\<close>

lemma draw_fields [simp]:
  "st_y (draw os st) = st_y st" "st_skills (draw os st) = st_skills st"
  "st_inSkillsSection (draw os st) = st_inSkillsSection st"
  by (simp_all add: draw_def split: list.split)

lemma move_down_fields [simp]:
  "st_y (move_down h st) = st_y st - h" "st_skills (move_down h st) = st_skills st"
  "st_inSkillsSection (move_down h st) = st_inSkillsSection st"
  "st_pages (move_down h st) = st_pages st"
  by (simp_all add: move_down_def)

lemma paginate_fields [simp]:
  "st_skills (paginate st) = st_skills st"
  "st_inSkillsSection (paginate st) = st_inSkillsSection st"
  by (simp_all add: paginate_def)

lemma put_lines_skills [simp]: "st_skills (put_lines d h ls st) = st_skills st"
  by (induction ls arbitrary: st) simp_all

lemma flow_lines_skills [simp]: "st_skills (flow_lines d h ls st) = st_skills st"
  by (induction ls arbitrary: st) simp_all

lemma section_header_skills [simp]: "st_skills (section_header rt line st) = st_skills st"
  by (simp add: section_header_def Let_def)

lemma job_entry_skills [simp]: "st_skills (job_entry rt t c p st) = st_skills st"
  by (simp add: job_entry_def Let_def)

lemma skills_category_skills [simp]: "st_skills (skills_category rt line st) = st_skills st"
  by (simp add: skills_category_def Let_def)

lemma body_text_skills [simp]: "st_skills (body_text rt line st) = st_skills st"
  by (simp add: body_text_def Let_def)

lemma body_line_skills [simp]: "st_skills (body_line rt l st) = st_skills st"
  by (simp add: body_line_def Let_def split: option.split)

lemma body_loop_skills [simp]: "st_skills (body_loop rt ls st) = st_skills st"
  by (induction ls arbitrary: st) simp_all

lemma header_flow_skills [simp]: "st_skills (header_flow rt r) = []"
  by (simp add: header_flow_def draw_rule_def draw_contact_def draw_name_def initial_flow_def
      Let_def split: list.split)

text \<open>
  Claim C9. Nothing appends to \<open>skills\<close>: it is empty before the loop over the body
  lines, after any number of iterations on any lines, and at the end of the document,
  for every input and every runtime. So the branch after the loop changes nothing and
  draws nothing: the document saved is the one the loop left.
\<close>

theorem skills_buffer_stays_empty:
  "st_skills (header_flow rt (parseResume resumeText)) = [] \<and>
   st_skills (body_loop rt bodyLines (header_flow rt (parseResume resumeText))) = [] \<and>
   st_skills (body_flow rt resumeText) = [] \<and>
   remaining_skills rt (body_flow rt resumeText) = body_flow rt resumeText \<and>
   generateResumePdf rt resumeText = st_pages (body_flow rt resumeText)"
  by (simp add: body_flow_def generateResumePdf_def remaining_skills_def Let_def)

section \<open>The inline emphasis renderer\<close>

text \<open>The text operations among drawing operations.\<close>

fun texts :: "draw_op list \<Rightarrow> text_op list" where
  "texts [] = []"
| "texts (DrawText t # os) = t # texts os"
| "texts (DrawLine _ _ _ _ _ _ # os) = texts os"








text \<open>A runtime to run the model on: fixed-pitch fonts, ASCII case mappings.\<close>

definition ascii_upper :: "jsstring \<Rightarrow> jsstring" where
  "ascii_upper = map (\<lambda>c. if 97 \<le> c \<and> c \<le> 122 then c - 32 else c)"

definition ascii_lower :: "jsstring \<Rightarrow> jsstring" where
  "ascii_lower = map (\<lambda>c. if 65 \<le> c \<and> c \<le> 90 then c + 32 else c)"

definition plain_runtime :: runtime where
  "plain_runtime = \<lparr> regular = fixed_pitch, bold = fixed_pitch,
                      toUpperCase = ascii_upper, toLowerCase = ascii_lower \<rparr>"

declare split_bold.simps(2) [simp del]





lemma split_bold_nomatch:
  "match_bold (c # cs) = None \<Longrightarrow> split_bold acc (c # cs) = split_bold (acc @ [c]) cs"
  by (simp add: split_bold.simps(2))






lemma not_bold_star_free: "STAR \<notin> set t \<Longrightarrow> \<not> is_bold_part t"
  by (cases t) (auto simp: is_bold_part_def)

lemma split_bold_plain:
  "STAR \<notin> set t \<Longrightarrow> split_bold acc (t @ rest) = split_bold (acc @ t) rest"
proof (induction t arbitrary: acc)
  case Nil
  then show ?case by simp
next
  case (Cons c t)
  then have "match_bold (c # t @ rest) = None" by (auto simp: match_bold_def Let_def)
  then have "split_bold acc ((c # t) @ rest) = split_bold (acc @ [c]) (t @ rest)"
    by (simp add: split_bold_nomatch)
  with Cons show ?case by simp
qed




















section \<open>The page flow\<close>

text \<open>All text operations of a document, page by page.\<close>

definition all_texts :: "page list \<Rightarrow> text_op list" where
  "all_texts ps = concat (map (\<lambda>p. texts (page_ops p)) ps)"

text \<open>The cursor is at most at the top margin, and there is a current page.\<close>

definition flow_ok :: "flow \<Rightarrow> bool" where
  "flow_ok st \<longleftrightarrow> st_y st \<le> PAGE_HEIGHT - MARGIN_TOP \<and> st_pages st \<noteq> []"

lemma texts_append [simp]: "texts (xs @ ys) = texts xs @ texts ys"
  by (induction xs rule: texts.induct) simp_all

lemma draw_pages:
  "st_pages st \<noteq> [] \<Longrightarrow>
   st_pages (draw os st)
     = butlast (st_pages st) @ [last (st_pages st) \<lparr> page_ops := page_ops (last (st_pages st)) @ os \<rparr>]"
proof -
  assume ne: "st_pages st \<noteq> []"
  then obtain p ps where r: "rev (st_pages st) = p # ps" by (cases "rev (st_pages st)") auto
  then have sp: "st_pages st = rev ps @ [p]" by (metis rev.simps(2) rev_rev_ident)
  show ?thesis by (simp add: draw_def r) (simp add: sp)
qed

lemma draw_all_texts:
  "st_pages st \<noteq> [] \<Longrightarrow> all_texts (st_pages (draw os st)) = all_texts (st_pages st) @ texts os"
proof -
  assume ne: "st_pages st \<noteq> []"
  then have sp: "st_pages st = butlast (st_pages st) @ [last (st_pages st)]" by simp
  have "all_texts (st_pages (draw os st))
        = all_texts (butlast (st_pages st)) @ texts (page_ops (last (st_pages st))) @ texts os"
    by (simp add: draw_pages[OF ne] all_texts_def)
  also have "\<dots> = all_texts (butlast (st_pages st) @ [last (st_pages st)]) @ texts os"
    by (simp add: all_texts_def)
  finally show ?thesis using sp by simp
qed

lemma draw_ok [simp]: "flow_ok st \<Longrightarrow> flow_ok (draw os st)"
  by (simp add: flow_ok_def draw_pages)

lemma move_down_ok [simp]: "0 \<le> h \<Longrightarrow> flow_ok st \<Longrightarrow> flow_ok (move_down h st)"
  by (simp add: flow_ok_def)

lemma paginate_ok [simp]: "flow_ok st \<Longrightarrow> flow_ok (paginate st)"
  by (simp add: flow_ok_def paginate_def)

lemma paginate_all_texts [simp]: "all_texts (st_pages (paginate st)) = all_texts (st_pages st)"
  by (simp add: paginate_def all_texts_def new_page_def)

lemma put_lines_ok [simp]: "0 \<le> h \<Longrightarrow> flow_ok st \<Longrightarrow> flow_ok (put_lines d h ls st)"
  by (induction ls arbitrary: st) simp_all

lemma flow_lines_ok [simp]: "0 \<le> h \<Longrightarrow> flow_ok st \<Longrightarrow> flow_ok (flow_lines d h ls st)"
  by (induction ls arbitrary: st) simp_all

lemma heights_nonneg [simp]:
  "0 \<le> NAME_LINE_HEIGHT" "0 \<le> CONTACT_LINE_HEIGHT" "0 \<le> SECTION_LINE_HEIGHT"
  "0 \<le> BODY_LINE_HEIGHT" "0 \<le> BODY_LINE_HEIGHT + 2" "0 \<le> BODY_LINE_HEIGHT - 2"
  by (simp_all add: NAME_LINE_HEIGHT_def CONTACT_LINE_HEIGHT_def SECTION_LINE_HEIGHT_def
      BODY_LINE_HEIGHT_def NAME_SIZE_def CONTACT_SIZE_def SECTION_HEADER_SIZE_def BODY_SIZE_def)

lemma flow_ok_skills_flag [simp]: "flow_ok (st \<lparr> st_inSkillsSection := b \<rparr>) = flow_ok st"
  by (simp add: flow_ok_def)

lemma section_header_ok [simp]: "flow_ok st \<Longrightarrow> flow_ok (section_header rt line st)"
  by (simp add: section_header_def Let_def)

lemma job_entry_ok [simp]: "flow_ok st \<Longrightarrow> flow_ok (job_entry rt t c p st)"
  unfolding job_entry_def Let_def
  by (intro move_down_ok flow_lines_ok heights_nonneg) simp_all

lemma skills_category_ok [simp]: "flow_ok st \<Longrightarrow> flow_ok (skills_category rt line st)"
  by (simp add: skills_category_def Let_def)

lemma body_text_ok [simp]: "flow_ok st \<Longrightarrow> flow_ok (body_text rt line st)"
  by (simp add: body_text_def Let_def)

lemma body_line_ok [simp]: "flow_ok st \<Longrightarrow> flow_ok (body_line rt l st)"
  by (simp add: body_line_def Let_def split: option.split)

lemma body_loop_ok [simp]: "flow_ok st \<Longrightarrow> flow_ok (body_loop rt ls st)"
  by (induction ls arbitrary: st) simp_all

lemma header_flow_ok [simp]: "flow_ok (header_flow rt r)"
proof -
  have "flow_ok initial_flow" by (simp add: flow_ok_def initial_flow_def)
  then have "flow_ok (draw_name rt (name r) initial_flow)"
    by (simp add: draw_name_def split: list.split)
  then have "flow_ok (draw_contact rt r (draw_name rt (name r) initial_flow))"
    by (simp add: draw_contact_def Let_def)
  then show ?thesis by (simp add: header_flow_def draw_rule_def)
qed


lemma skills_buffer_empty:
  "generateResumePdf rt resumeText = st_pages (body_flow rt resumeText)"
  by (simp add: body_flow_def generateResumePdf_def remaining_skills_def Let_def)

lemma split_on_join:
  "ls \<noteq> [] \<Longrightarrow> \<forall>l \<in> set ls. sep \<notin> set l \<Longrightarrow> split_on sep (join [sep] ls) = ls"
proof (induction ls rule: induct_list012)
  case 1
  then show ?case by simp
next
  case (2 x)
  then show ?case by (simp add: split_on_no_sep)
next
  case (3 x y zs)
  have "join [sep] (x # y # zs) = x @ sep # join [sep] (y # zs)" by simp
  then have "split_on sep (join [sep] (x # y # zs))
               = split_on sep x @ split_on sep (join [sep] (y # zs))"
    by (simp only: split_on_append)
  with 3 show ?case by (simp add: split_on_no_sep)
qed

lemma body_loop_append:
  "body_loop rt (xs @ ys) st = body_loop rt ys (body_loop rt xs st)"
  by (induction xs arbitrary: st) simp_all

lemma body_line_blank: "body_line rt [] st = move_down 6 st"
  by (simp add: body_line_def trim_def)

lemma body_loop_blank:
  "body_loop rt (replicate n []) st = st \<lparr> st_y := st_y st - 6 * of_nat n \<rparr>"
proof (induction n arbitrary: st)
  case 0
  then show ?case by simp
next
  case (Suc n)
  show ?case
    by (simp add: body_line_blank Suc move_down_def algebra_simps)
qed

lemma wrapText_single_word:
  "w \<noteq> [] \<Longrightarrow> 32 \<notin> set w \<Longrightarrow> wrapText w f sz mw = [w]"
  by (simp add: wrapText_def split_on_no_sep testLine_def Let_def)

lemma drawTextWithBold_star_free:
  "STAR \<notin> set t \<Longrightarrow> drawTextWithBold rt t x y sz col = text_at x sz Regular col t y"
proof -
  assume sf: "STAR \<notin> set t"
  from split_bold_plain[OF sf, of "[]" "[]"] have "split_bold [] t = [t]" by simp
  then show ?thesis using not_bold_star_free[OF sf] by (simp add: drawTextWithBold_def)
qed

text \<open>
  An input whose body is the line \<open>a\<close>, 121 blank lines and the line \<open>x\<close>, after six
  header lines.
\<close>

definition gap_lines :: "jsstring list" where
  "gap_lines = [js ''Engineer'', js ''Ann'', js ''ann@x.org'', js ''555'', js ''Paris'',
                js ''x.org/ann'', js ''a''] @ replicate 121 [] @ [js ''x'']"

definition gap_input :: jsstring where
  "gap_input = join [10] gap_lines"

lemma split_gap_input: "split_on 10 gap_input = gap_lines"
  unfolding gap_input_def
  by (rule split_on_join) (auto simp: gap_lines_def js_def)

lemma parseResume_gap_input:
  "body (parseResume gap_input) = join [10] (js ''a'' # replicate 121 [] @ [js ''x''])"
proof -
  have hl: "header_loop gap_lines 0 [] 0 =
      ([] @ map trim (filter (\<lambda>l. \<not> blank l)
              [js ''Engineer'', js ''Ann'', js ''ann@x.org'', js ''555'', js ''Paris''])
          @ [trim (js ''x.org/ann'')],
       0 + length [js ''Engineer'', js ''Ann'', js ''ann@x.org'', js ''555'', js ''Paris''] + 1)"
    by (rule header_loop_six[where post = "js ''a'' # replicate 121 [] @ [js ''x'']"])
       (simp_all add: gap_lines_def blank_def trim_def is_ws_def js_def)
  have sb: "skip_blank gap_lines 6 = 6"
    by (simp add: skip_blank.simps[of _ 6] gap_lines_def trim_def is_ws_def js_def)
  have dr: "drop 6 gap_lines = js ''a'' # replicate 121 [] @ [js ''x'']"
    by (simp add: gap_lines_def)
  have six: "0 + length [js ''Engineer'', js ''Ann'', js ''ann@x.org'', js ''555'', js ''Paris''] + 1
             = (6::nat)" by simp
  show ?thesis
    unfolding parseResume_def split_gap_input Let_def hl prod.case six sb dr
    by simp
qed


lemma body_line_x:
  "body_line rt (js ''x'') st
     = paginate (paginate (move_down BODY_LINE_HEIGHT
         (draw (text_at (left + 10) BODY_SIZE Regular BLACK (js ''x'') (st_y st)) st)))"
proof -
  have cls: "trim (js ''x'') = js ''x''" "\<not> endsWith_colon (js ''x'')"
    "\<not> isJobExperience (js ''x'')" "\<not> startsWith_dot (js ''x'')" "js ''x'' \<noteq> []"
    by (simp_all add: trim_def is_ws_def js_def endsWith_colon_def COLON_def isJobExperience_def
        AT_def startsWith_dot_def MIDDLE_DOT_def)
  have w: "wrapText (js ''x'') (regular rt) BODY_SIZE (CONTENT_WIDTH - 10) = [js ''x'']"
    by (rule wrapText_single_word) (simp_all add: js_def)
  have d: "drawTextWithBold rt (js ''x'') (left + 10) y BODY_SIZE BLACK
             = text_at (left + 10) BODY_SIZE Regular BLACK (js ''x'') y" for y
    by (rule drawTextWithBold_star_free) (simp add: js_def STAR_def)
  show ?thesis
    by (simp add: body_line_def cls Let_def body_text_def w d)
qed

lemma gap_input_below_margin:
  "\<exists>p \<in> set (generateResumePdf rt gap_input). \<exists>t \<in> set (texts (page_ops p)).
     op_text t = js ''x'' \<and> op_y t < MARGIN_BOTTOM"
proof -
  let ?st0 = "header_flow rt (parseResume gap_input)"
  let ?st1 = "body_line rt (js ''a'') ?st0"
  let ?st2 = "?st1 \<lparr> st_y := st_y ?st1 - 6 * of_nat (121::nat) \<rparr>"
  let ?t = "\<lparr> op_text = js ''x'', op_x = left + 10, op_y = st_y ?st2, op_size = BODY_SIZE,
              op_face = Regular, op_color = BLACK \<rparr>"
  have bl: "split_on 10 (body (parseResume gap_input)) = js ''a'' # replicate 121 [] @ [js ''x'']"
    unfolding parseResume_gap_input
    by (rule split_on_join) (auto simp: js_def)
  have ok1: "flow_ok ?st1" by simp
  then have y2: "st_y ?st2 < MARGIN_BOTTOM" and p2: "st_pages ?st2 \<noteq> []"
    by (simp_all add: flow_ok_def PAGE_HEIGHT_def MARGIN_TOP_def MARGIN_BOTTOM_def)
  have "body_flow rt gap_input = body_line rt (js ''x'') ?st2"
    by (simp add: body_flow_def Let_def bl body_loop_append body_loop_blank)
  then have "generateResumePdf rt gap_input = st_pages (body_line rt (js ''x'') ?st2)"
    using skills_buffer_empty[of rt gap_input] by simp
  then have "all_texts (generateResumePdf rt gap_input) = all_texts (st_pages ?st2) @ [?t]"
    using draw_all_texts[OF p2] by (simp add: body_line_x text_at_def)
  then have "?t \<in> set (all_texts (generateResumePdf rt gap_input))" by simp
  then obtain p where "p \<in> set (generateResumePdf rt gap_input)" "?t \<in> set (texts (page_ops p))"
    by (auto simp: all_texts_def)
  moreover have "op_text ?t = js ''x'' \<and> op_y ?t < MARGIN_BOTTOM" using y2 by simp
  ultimately show ?thesis by blast
qed

text \<open>An input with a skills section: six header lines, then three body lines.\<close>

definition skills_lines :: "jsstring list" where
  "skills_lines = [js ''Engineer'', js ''Ann Lee'', js ''ann@x.org'', js ''555'', js ''Paris'',
                   js ''x.org/ann'', [], js ''Skills:'', MIDDLE_DOT # js '' Frontend'',
                   js ''React, Vue'']"

definition skills_input :: jsstring where
  "skills_input = join [10] skills_lines"

lemma split_skills_input: "split_on 10 skills_input = skills_lines"
  unfolding skills_input_def
  by (rule split_on_join) (auto simp: skills_lines_def js_def MIDDLE_DOT_def)

lemma parseResume_skills_input:
  "parseResume skills_input =
     \<lparr> headline = Some (js ''Engineer''), name = Some (js ''Ann Lee''),
       email = Some (js ''ann@x.org''), phone = Some (js ''555''), location = Some (js ''Paris''),
       linkedin = Some (js ''x.org/ann''),
       body = join [10] [js ''Skills:'', MIDDLE_DOT # js '' Frontend'', js ''React, Vue''] \<rparr>"
proof -
  have hl: "header_loop skills_lines 0 [] 0 =
             ([js ''Engineer'', js ''Ann Lee'', js ''ann@x.org'', js ''555'',
               js ''Paris'', js ''x.org/ann''], 6)"
    unfolding skills_lines_def by (simp add: header_loop.simps js_def trim_def is_ws_def Let_def)
  have sb: "skip_blank skills_lines 6 = 7"
    unfolding skills_lines_def by (simp add: skip_blank.simps js_def trim_def is_ws_def)
  have dr: "drop 7 skills_lines = [js ''Skills:'', MIDDLE_DOT # js '' Frontend'', js ''React, Vue'']"
    by (simp add: skills_lines_def)
  show ?thesis
    unfolding parseResume_def split_skills_input hl Let_def prod.case sb dr
    by (simp add: nth_opt_def)
qed

lemmas layout_defs =
  MARGIN_TOP_def MARGIN_BOTTOM_def MARGIN_LEFT_def MARGIN_RIGHT_def PAGE_WIDTH_def PAGE_HEIGHT_def
  CONTENT_WIDTH_def NAME_SIZE_def CONTACT_SIZE_def SECTION_HEADER_SIZE_def BODY_SIZE_def
  NAME_LINE_HEIGHT_def CONTACT_LINE_HEIGHT_def SECTION_LINE_HEIGHT_def BODY_LINE_HEIGHT_def
  left_def right_def

lemma header_skills_input:
  "header_flow plain_runtime (parseResume skills_input) =
     \<lparr> st_pages = [\<lparr> page_width = 595, page_height = 842, page_ops =
          [DrawText \<lparr> op_text = js ''ANN LEE'', op_x = 50, op_y = 770, op_size = 24,
                      op_face = Bold, op_color = DARK_BLUE \<rparr>,
           DrawText \<lparr> op_text = js ''Paris '' @ [BULLET] @ js '' 555 '' @ [BULLET] @
                                 js '' ann@x.org '' @ [BULLET] @ js '' x.org/ann'',
                      op_x = 50, op_y = 3744 / 5, op_size = 9,
                      op_face = Regular, op_color = DARK_GRAY \<rparr>,
           DrawLine 50 (7313 / 10) 545 (7313 / 10) (3 / 2) DARK_BLUE] \<rparr>],
       st_y = 7153 / 10, st_inSkillsSection = False, st_skills = [] \<rparr>"
  unfolding header_flow_def parseResume_skills_input
  by (simp add: draw_name_def draw_contact_def draw_rule_def initial_flow_def new_page_def
      draw_def move_down_def text_at_def truthy_def wrapText_def split_on.simps testLine_def
      plain_runtime_def ascii_upper_def fixed_pitch_def layout_defs js_def BULLET_def Let_def)


lemma body_lines_skills_input:
  "split_on 10 (body (parseResume skills_input))
     = [js ''Skills:'', MIDDLE_DOT # js '' Frontend'', js ''React, Vue'']"
  unfolding parseResume_skills_input
  by (simp add: js_def MIDDLE_DOT_def split_on.simps)

lemmas classifier_defs =
  endsWith_colon_def startsWith_dot_def isJobExperience_def colon_after_def job_match_def
  match_company_def match_period_def dots_def is_lt_def AT_def COLON_def MIDDLE_DOT_def

lemma body_skills_input:
  "body_flow plain_runtime skills_input =
     \<lparr> st_pages = [\<lparr> page_width = 595, page_height = 842, page_ops =
          [DrawText \<lparr> op_text = js ''ANN LEE'', op_x = 50, op_y = 770, op_size = 24,
                      op_face = Bold, op_color = DARK_BLUE \<rparr>,
           DrawText \<lparr> op_text = js ''Paris '' @ [BULLET] @ js '' 555 '' @ [BULLET] @
                                 js '' ann@x.org '' @ [BULLET] @ js '' x.org/ann'',
                      op_x = 50, op_y = 3744 / 5, op_size = 9,
                      op_face = Regular, op_color = DARK_GRAY \<rparr>,
           DrawLine 50 (7313 / 10) 545 (7313 / 10) (3 / 2) DARK_BLUE,
           DrawText \<lparr> op_text = js ''Skills:'', op_x = 50, op_y = 7033 / 10, op_size = 14,
                      op_face = Bold, op_color = DARK_BLUE \<rparr>,
           DrawText \<lparr> op_text = MIDDLE_DOT # js '' Frontend'', op_x = 60, op_y = 6823 / 10,
                      op_size = 12, op_face = Bold, op_color = MEDIUM_BLUE \<rparr>,
           DrawText \<lparr> op_text = js ''React, Vue'', op_x = 60, op_y = 6649 / 10,
                      op_size = 11, op_face = Regular, op_color = BLACK \<rparr>] \<rparr>],
       st_y = 1299 / 2, st_inSkillsSection = True, st_skills = [] \<rparr>"
  unfolding body_flow_def Let_def body_lines_skills_input header_skills_input
  by (simp add: body_line_def section_header_def skills_category_def body_text_def
      classifier_defs trim_def is_ws_def
      drawTextWithBold_def split_bold.simps(2) match_bold_def is_bold_part_def STAR_def
      paginate_def draw_def move_down_def text_at_def wrapText_def split_on.simps testLine_def
      plain_runtime_def ascii_lower_def fixed_pitch_def layout_defs js_def BULLET_def Let_def)


lemma flow_lines_text_at:
  "st_pages st \<noteq> [] \<Longrightarrow>
   st_pages (flow_lines (text_at x sz f col) h ls st) \<noteq> [] \<and>
   map op_text (all_texts (st_pages (flow_lines (text_at x sz f col) h ls st)))
     = map op_text (all_texts (st_pages st)) @ ls"
proof (induction ls arbitrary: st)
  case Nil
  then show ?case by simp
next
  case (Cons l ls)
  let ?st' = "paginate (move_down h (draw (text_at x sz f col l (st_y st)) st))"
  have ne: "st_pages ?st' \<noteq> []"
    using Cons.prems by (simp add: paginate_def draw_pages)
  have "map op_text (all_texts (st_pages ?st')) = map op_text (all_texts (st_pages st)) @ [l]"
    using draw_all_texts[OF Cons.prems] by (simp add: text_at_def)
  with Cons.IH[OF ne] show ?case by simp
qed

lemma wrapText_words:
  "filter (\<lambda>w. w \<noteq> []) (concat (map (split_on 32) (wrapText s f sz mw)))
     = filter (\<lambda>w. w \<noteq> []) (split_on 32 s)"
proof -
  obtain lines cur where run: "wrap_loop f sz mw (split_on 32 s) [] [] = (lines, cur)"
    by (cases "wrap_loop f sz mw (split_on 32 s) [] []") auto
  have nosep: "\<forall>w \<in> set (split_on 32 s). 32 \<notin> set w"
    using split_on_parts_no_sep by blast
  show ?thesis
    using wrap_loop_words[OF nosep run] by (cases "cur = []") (simp_all add: wrapText_def run)
qed

text \<open>
  For every runtime and every state with a page, the skills category branch draws the
  wrapped lines of the trimmed line itself: its words, in order, begin with the glyph.
\<close>

lemma skills_category_words:
  assumes "st_pages st \<noteq> []"
  shows "map op_text (all_texts (st_pages (skills_category rt (MIDDLE_DOT # js '' Frontend'') st)))
           = map op_text (all_texts (st_pages st)) @
             wrapText (MIDDLE_DOT # js '' Frontend'') (bold rt) (BODY_SIZE + 1) (CONTENT_WIDTH - 20)"
    and "filter (\<lambda>w. w \<noteq> []) (concat (map (split_on 32)
            (wrapText (MIDDLE_DOT # js '' Frontend'') (bold rt) (BODY_SIZE + 1) (CONTENT_WIDTH - 20))))
           = [[MIDDLE_DOT], js ''Frontend'']"
proof -
  have tr: "trim (MIDDLE_DOT # js '' Frontend'') = MIDDLE_DOT # js '' Frontend''"
    by (simp add: trim_def is_ws_def js_def MIDDLE_DOT_def)
  show "map op_text (all_texts (st_pages (skills_category rt (MIDDLE_DOT # js '' Frontend'') st)))
           = map op_text (all_texts (st_pages st)) @
             wrapText (MIDDLE_DOT # js '' Frontend'') (bold rt) (BODY_SIZE + 1) (CONTENT_WIDTH - 20)"
    using flow_lines_text_at[OF assms] by (simp add: skills_category_def Let_def tr)
  show "filter (\<lambda>w. w \<noteq> []) (concat (map (split_on 32)
            (wrapText (MIDDLE_DOT # js '' Frontend'') (bold rt) (BODY_SIZE + 1) (CONTENT_WIDTH - 20))))
           = [[MIDDLE_DOT], js ''Frontend'']"
    unfolding wrapText_words by (simp add: js_def MIDDLE_DOT_def split_on.simps)
qed

text \<open>
  Claim C5 fails on the code. On an input with the skills category line
  \<open>\<cdot> Frontend\<close> the text drawn for the line, bold at size 12, is the trimmed line with its
  glyph, and no text \<open>Frontend\<close> is drawn.
\<close>

theorem skills_category_draws_glyph:
  "all_texts (generateResumePdf plain_runtime skills_input) =
     [\<lparr> op_text = js ''ANN LEE'', op_x = 50, op_y = 770, op_size = 24,
        op_face = Bold, op_color = DARK_BLUE \<rparr>,
      \<lparr> op_text = js ''Paris '' @ [BULLET] @ js '' 555 '' @ [BULLET] @
                    js '' ann@x.org '' @ [BULLET] @ js '' x.org/ann'',
        op_x = 50, op_y = 3744 / 5, op_size = 9, op_face = Regular, op_color = DARK_GRAY \<rparr>,
      \<lparr> op_text = js ''Skills:'', op_x = 50, op_y = 7033 / 10, op_size = 14,
        op_face = Bold, op_color = DARK_BLUE \<rparr>,
      \<lparr> op_text = MIDDLE_DOT # js '' Frontend'', op_x = 60, op_y = 6823 / 10,
        op_size = 12, op_face = Bold, op_color = MEDIUM_BLUE \<rparr>,
      \<lparr> op_text = js ''React, Vue'', op_x = 60, op_y = 6649 / 10,
        op_size = 11, op_face = Regular, op_color = BLACK \<rparr>] \<and>
   js ''Frontend'' \<notin> set (map op_text (all_texts (generateResumePdf plain_runtime skills_input)))"
  unfolding skills_buffer_empty body_skills_input
  by (simp add: all_texts_def js_def MIDDLE_DOT_def BULLET_def)

text \<open>
  An input with eleven job entries, a line of text and a section header: the header
  comes when the cursor is between the bottom margin and the gap before a header.
\<close>

definition job_line :: jsstring where
  "job_line = js ''Dev at Acme: 01/2020 - 02/2022''"

definition two_page_lines :: "jsstring list" where
  "two_page_lines = [js ''Engineer'', js ''Ann Lee'', js ''ann@x.org'', js ''555'', js ''Paris'',
                     js ''x.org/ann'', [],
                     job_line, job_line, job_line, job_line, job_line, job_line,
                     job_line, job_line, job_line, job_line, job_line,
                     js ''x'', js ''Skills:'']"

definition two_page_input :: jsstring where
  "two_page_input = join [10] two_page_lines"

lemma split_two_page_input: "split_on 10 two_page_input = two_page_lines"
  unfolding two_page_input_def
  by (rule split_on_join) (auto simp: two_page_lines_def job_line_def js_def)

lemma parseResume_two_page_input:
  "parseResume two_page_input =
     \<lparr> headline = Some (js ''Engineer''), name = Some (js ''Ann Lee''),
       email = Some (js ''ann@x.org''), phone = Some (js ''555''), location = Some (js ''Paris''),
       linkedin = Some (js ''x.org/ann''),
       body = join [10] (drop 7 two_page_lines) \<rparr>"
proof -
  have hl: "header_loop two_page_lines 0 [] 0 =
             ([js ''Engineer'', js ''Ann Lee'', js ''ann@x.org'', js ''555'',
               js ''Paris'', js ''x.org/ann''], 6)"
    unfolding two_page_lines_def by (simp add: header_loop.simps js_def trim_def is_ws_def Let_def)
  have sb: "skip_blank two_page_lines 6 = 7"
    unfolding two_page_lines_def
    by (simp add: skip_blank.simps job_line_def js_def trim_def is_ws_def)
  show ?thesis
    unfolding parseResume_def split_two_page_input hl Let_def prod.case sb
    by (simp add: nth_opt_def)
qed

lemma header_two_page_input:
  "header_flow plain_runtime (parseResume two_page_input)
     = header_flow plain_runtime (parseResume skills_input)"
  by (simp add: header_flow_def draw_contact_def parseResume_two_page_input parseResume_skills_input)

lemma body_lines_two_page_input:
  "split_on 10 (body (parseResume two_page_input)) = drop 7 two_page_lines"
  unfolding parseResume_two_page_input parsed_resume.simps
  by (rule split_on_join) (auto simp: two_page_lines_def job_line_def js_def)

lemma job_line_match:
  "trim job_line = job_line" "job_line = [] \<longleftrightarrow> False" "endsWith_colon job_line \<longleftrightarrow> False"
  "isJobExperience job_line \<longleftrightarrow> True"
  "job_match job_line = Some (js ''Dev'', js ''Acme'', js ''01/2020 - 02/2022'')"
  by (simp_all add: job_line_def classifier_defs trim_def is_ws_def js_def
      upt_rec[of _ "numeral _"] upt_rec[of _ "Suc _"])

lemma job_line_period:
  "formatDate (trim (js ''01/2020 - 02/2022'')) = js ''Jan 2020 '' @ [EN_DASH] @ js '' Feb 2022''"
  by (simp add: formatDate_def js_def EN_DASH_def is_dash_def trim_def is_ws_def format_part_def
      month_year_def is_digit_def parseInt_def month_text_def monthNames_def Let_def split_on.simps
      split_by.simps)

lemma job_line_wraps:
  "wrapText (trim (js ''Dev'')) (bold plain_runtime) (BODY_SIZE + 1) (CONTENT_WIDTH - 10) = [js ''Dev'']"
  "wrapText (trim (js ''Acme'')) (regular plain_runtime) BODY_SIZE (CONTENT_WIDTH - 10) = [js ''Acme'']"
  "wrapText (js ''Jan 2020 '' @ [EN_DASH] @ js '' Feb 2022'') (regular plain_runtime)
     (BODY_SIZE - 1) (CONTENT_WIDTH - 10) = [js ''Jan 2020 '' @ [EN_DASH] @ js '' Feb 2022'']"
  by (simp_all add: wrapText_def split_on.simps testLine_def trim_def is_ws_def
      plain_runtime_def fixed_pitch_def layout_defs js_def EN_DASH_def Let_def)

lemma job_line_entry:
  "body_line plain_runtime job_line st =
     paginate (move_down 4
       (flow_lines (text_at (left + 10) (BODY_SIZE - 1) Regular GRAY) (BODY_LINE_HEIGHT - 2)
          [js ''Jan 2020 '' @ [EN_DASH] @ js '' Feb 2022'']
       (flow_lines (text_at (left + 10) BODY_SIZE Regular GRAY) BODY_LINE_HEIGHT [js ''Acme'']
       (flow_lines (text_at (left + 10) (BODY_SIZE + 1) Bold MEDIUM_BLUE) (BODY_LINE_HEIGHT + 2)
          [js ''Dev''] (move_down 8 st)))))"
  unfolding body_line_def Let_def job_line_match if_False if_True option.case prod.case
    job_entry_def job_line_period job_line_wraps ..

lemma body_line_Skills_header:
  "body_line plain_runtime (js ''Skills:'') st =
     paginate
       ((flow_lines (text_at left SECTION_HEADER_SIZE Bold DARK_BLUE) SECTION_LINE_HEIGHT
           [js ''Skills:''] (move_down 12 st)) \<lparr> st_inSkillsSection := True \<rparr>)"
proof -
  have cls: "trim (js ''Skills:'') = js ''Skills:''" "js ''Skills:'' \<noteq> []"
    "endsWith_colon (js ''Skills:'')"
    "toLowerCase plain_runtime (js ''Skills:'') = js ''skills:''"
    by (simp_all add: trim_def is_ws_def js_def endsWith_colon_def COLON_def plain_runtime_def
        ascii_lower_def)
  have w: "wrapText (js ''Skills:'') (bold plain_runtime) SECTION_HEADER_SIZE CONTENT_WIDTH
             = [js ''Skills:'']"
    by (rule wrapText_single_word) (simp_all add: js_def)
  show ?thesis
    by (simp add: body_line_def cls Let_def section_header_def w)
qed

lemma two_page_body:
  "body_loop plain_runtime (drop 7 two_page_lines) st =
     body_line plain_runtime (js ''Skills:'') (body_line plain_runtime (js ''x'')
       (((body_line plain_runtime job_line) ^^ 11) st))"
  by (simp add: two_page_lines_def eval_nat_numeral)

lemma two_page_evaluation:
  "length (generateResumePdf plain_runtime two_page_input) = 2 \<and>
   \<lparr> op_text = js ''Skills:'', op_x = 50, op_y = 477 / 10, op_size = 14,
     op_face = Bold, op_color = DARK_BLUE \<rparr>
     \<in> set (texts (page_ops (generateResumePdf plain_runtime two_page_input ! 0)))"
  unfolding skills_buffer_empty body_flow_def Let_def body_lines_two_page_input
    header_two_page_input header_skills_input two_page_body
  by (simp add: eval_nat_numeral job_line_entry body_line_x body_line_Skills_header
      paginate_def draw_def move_down_def text_at_def layout_defs new_page_def)

text \<open>
  Claim C3 fails on the code. For every runtime, on the input whose body is the line
  \<open>a\<close>, 121 blank lines and the line \<open>x\<close>, the text \<open>x\<close> is drawn below the bottom
  margin: a blank line moves the cursor and skips the check. With the fixed-pitch
  runtime, on the input with eleven job entries, a line of text and the header
  \<open>Skills:\<close>, the document has two pages and the header is drawn on the first one at
  \<open>y = 47.7\<close>, below the bottom margin of 50: the gap before a header is subtracted
  without a check.
\<close>

theorem page_flow_draws_below_bottom_margin:
  "(\<exists>p \<in> set (generateResumePdf rt gap_input). \<exists>t \<in> set (texts (page_ops p)).
      op_text t = js ''x'' \<and> op_y t < MARGIN_BOTTOM) \<and>
   length (generateResumePdf plain_runtime two_page_input) = 2 \<and>
   \<lparr> op_text = js ''Skills:'', op_x = 50, op_y = 477 / 10, op_size = 14,
     op_face = Bold, op_color = DARK_BLUE \<rparr>
     \<in> set (texts (page_ops (generateResumePdf plain_runtime two_page_input ! 0))) \<and>
   477 / 10 < MARGIN_BOTTOM"
  using gap_input_below_margin[of rt] two_page_evaluation by (simp add: MARGIN_BOTTOM_def)

section \<open>The endpoint\<close>

text \<open>
  What is outside the repository is a parameter of the model: the environment
  variables, the completion service, and the PDF library's rendering of the document to
  bytes. A call that can throw returns the thrown value on the left: the message of an
  \<open>Error\<close>, or nothing for any other value. The fixed text of the prompt and the base
  resume are long literals of the source; they are fields of the deployment, since no
  property below depends on their content. A form field is a string or absent, as the
  source's casts say; file parts are not modelled.
\<close>

datatype thrown = Thrown "jsstring option"

type_synonym form_data = "string \<Rightarrow> jsstring option"

datatype event =
    ModelCall jsstring jsstring
  | PdfGeneration jsstring

datatype response_body = TextBody jsstring | BinaryBody "nat list"

record response =
  status :: nat
  headers :: "(string \<times> jsstring) list"
  content :: response_body

record deployment =
  OPENAI_API_KEY :: "jsstring option"
  OPENAI_VERSION :: "jsstring option"
  baseResume :: jsstring
  prompt_head :: jsstring
  prompt_middle :: jsstring
  prompt_tail :: jsstring
  complete :: "jsstring \<Rightarrow> jsstring \<Rightarrow> thrown + jsstring option"
  render :: "page list \<Rightarrow> thrown + nat list"
  runtime_of :: runtime

text \<open>A value is falsy when it is \<open>null\<close>, \<open>undefined\<close> or the empty string.\<close>

definition falsy :: "jsstring option \<Rightarrow> bool" where
  "falsy v \<longleftrightarrow> (case v of None \<Rightarrow> True | Some s \<Rightarrow> s = [])"

text \<open>\<open>a || b\<close> on strings.\<close>

definition or_else :: "jsstring option \<Rightarrow> jsstring \<Rightarrow> jsstring" where
  "or_else v d = (case v of None \<Rightarrow> d | Some s \<Rightarrow> (if s = [] then d else s))"

definition buildPrompt :: "deployment \<Rightarrow> jsstring \<Rightarrow> jsstring \<Rightarrow> jsstring" where
  "buildPrompt dep base jobDescription =
     prompt_head dep @ base @ prompt_middle dep @ jobDescription @ prompt_tail dep"

subsection \<open>JSON.stringify of an object of strings\<close>

definition hex_digit :: "nat \<Rightarrow> jschar" where
  "hex_digit d = (if d < 10 then 48 + d else 87 + d)"

definition unicode_escape :: "jschar \<Rightarrow> jsstring" where
  "unicode_escape c =
     [92, 117, hex_digit (c div 4096 mod 16), hex_digit (c div 256 mod 16),
      hex_digit (c div 16 mod 16), hex_digit (c mod 16)]"

definition is_high_surrogate :: "jschar \<Rightarrow> bool" where
  "is_high_surrogate c \<longleftrightarrow> 55296 \<le> c \<and> c \<le> 56319"

definition is_low_surrogate :: "jschar \<Rightarrow> bool" where
  "is_low_surrogate c \<longleftrightarrow> 56320 \<le> c \<and> c \<le> 57343"

definition quote_unit :: "jschar \<Rightarrow> jsstring" where
  "quote_unit c =
     (if c = 8 then [92, 98] else if c = 9 then [92, 116] else if c = 10 then [92, 110]
      else if c = 12 then [92, 102] else if c = 13 then [92, 114]
      else if c = 34 then [92, 34] else if c = 92 then [92, 92]
      else if c < 32 \<or> is_high_surrogate c \<or> is_low_surrogate c then unicode_escape c
      else [c])"

definition is_pair :: "jschar \<Rightarrow> jsstring \<Rightarrow> bool" where
  "is_pair c cs \<longleftrightarrow> is_high_surrogate c \<and> (case cs of [] \<Rightarrow> False | d # _ \<Rightarrow> is_low_surrogate d)"

fun quote_units :: "jsstring \<Rightarrow> jsstring" where
  "quote_units [] = []"
| "quote_units [c] = quote_unit c"
| "quote_units (c # d # cs) =
     (if is_pair c (d # cs) then c # d # quote_units cs else quote_unit c @ quote_units (d # cs))"

definition json_string :: "jsstring \<Rightarrow> jsstring" where
  "json_string s = [34] @ quote_units s @ [34]"

definition json_object :: "(string \<times> jsstring) list \<Rightarrow> jsstring" where
  "json_object kvs =
     [123] @ join [44] (map (\<lambda>(k, v). json_string (js k) @ [58] @ json_string v) kvs) @ [125]"

subsection \<open>POST\<close>

definition json_response :: "nat \<Rightarrow> (string \<times> jsstring) list \<Rightarrow> response" where
  "json_response code kvs =
     \<lparr> status = code, headers = [(''Content-Type'', js ''application/json'')],
       content = TextBody (json_object kvs) \<rparr>"

text \<open>The \<open>catch\<close> block.\<close>

definition internal_error :: "thrown \<Rightarrow> response" where
  "internal_error e =
     json_response 500
       [(''error'', js ''Internal server error''),
        (''details'', (case e of Thrown (Some m) \<Rightarrow> m | Thrown None \<Rightarrow> js ''Unknown error''))]"

text \<open>\<open>s.replace(/[^a-zA-Z0-9_]/g, '_')\<close>.\<close>

definition is_word_unit :: "jschar \<Rightarrow> bool" where
  "is_word_unit c \<longleftrightarrow> (97 \<le> c \<and> c \<le> 122) \<or> (65 \<le> c \<and> c \<le> 90) \<or> (48 \<le> c \<and> c \<le> 57) \<or> c = 95"

definition sanitize :: "jsstring \<Rightarrow> jsstring" where
  "sanitize s = map (\<lambda>c. if is_word_unit c then c else 95) s"

definition fileBase :: "jsstring \<Rightarrow> jsstring \<Rightarrow> jsstring" where
  "fileBase company role = js ''Louis_Bailey_'' @ sanitize company @ js ''_'' @ sanitize role"

definition pdf_response :: "nat list \<Rightarrow> jsstring \<Rightarrow> jsstring \<Rightarrow> response" where
  "pdf_response pdfBytes company role =
     \<lparr> status = 200,
       headers = [(''Content-Type'', js ''application/pdf''),
                  (''Content-Disposition'',
                   js ''attachment; filename='' @ [34] @ fileBase company role @ js ''.pdf'' @ [34])],
       content = BinaryBody pdfBytes \<rparr>"

text \<open>
  The handler: the response, and the calls made to the completion service and to the
  PDF generation, in order. The request is its form data, or what \<open>req.formData()\<close>
  throws.
\<close>

definition POST :: "deployment \<Rightarrow> thrown + form_data \<Rightarrow> response \<times> event list" where
  "POST dep req =
     (case req of
        Inl e \<Rightarrow> (internal_error e, [])
      | Inr formData \<Rightarrow>
          (let jobDescription = formData ''job_description'';
               company = formData ''company'';
               role = formData ''role''
           in if falsy jobDescription \<or> falsy company \<or> falsy role then
                (json_response 400
                   [(''error'', js ''Missing required fields: job_description, company, role'')], [])
              else if falsy (OPENAI_API_KEY dep) then
                (json_response 500 [(''error'', js ''OpenAI API key not configured'')], [])
              else
                (let prompt = buildPrompt dep (baseResume dep) (the jobDescription);
                     model = or_else (OPENAI_VERSION dep) (js ''gpt-3.5-turbo'');
                     called = [ModelCall model prompt]
                 in case complete dep model prompt of
                      Inl e \<Rightarrow> (internal_error e, called)
                    | Inr answer \<Rightarrow>
                        (let tailoredResume = or_else answer []
                         in if tailoredResume = [] then
                              (json_response 500
                                 [(''error'', js ''Failed to generate tailored resume content'')],
                               called)
                            else
                              (case render dep (generateResumePdf (runtime_of dep) tailoredResume) of
                                 Inl e \<Rightarrow> (internal_error e, called @ [PdfGeneration tailoredResume])
                               | Inr pdfBytes \<Rightarrow>
                                   (pdf_response pdfBytes (the company) (the role),
                                    called @ [PdfGeneration tailoredResume]))))))"


text \<open>
  A deployment with a configured key whose completion service answers with the six-line
  resume and whose rendering succeeds, and two forms: the one of the end-to-end
  scenario, and one without the field \<open>role\<close>.
\<close>

definition stub_deployment :: deployment where
  "stub_deployment =
     \<lparr> OPENAI_API_KEY = Some (js ''key''), OPENAI_VERSION = None, baseResume = [],
       prompt_head = [], prompt_middle = [], prompt_tail = [],
       complete = (\<lambda>model prompt. Inr (Some resume6)),
       render = (\<lambda>doc. Inr []),
       runtime_of = plain_runtime \<rparr>"

definition acme_form :: form_data where
  "acme_form = map_of [(''job_description'', js ''Build APIs''), (''company'', js ''Acme Inc.''),
                       (''role'', js ''Backend Eng.'')]"

definition no_role_form :: form_data where
  "no_role_form = map_of [(''job_description'', js ''Build APIs''), (''company'', js ''Acme Inc.'')]"

text \<open>
  Claim C7. When one of the fields \<open>job_description\<close>, \<open>company\<close>, \<open>role\<close> is missing
  from the form (or is the empty string), the response has status 400, the JSON content
  type and the body \<open>{"error":"Missing required fields: job_description, company,
  role"}\<close>, and neither the completion service nor the PDF generation has been called,
  for every deployment.
\<close>

theorem missing_field_is_rejected:
  assumes "falsy (formData ''job_description'') \<or> falsy (formData ''company'') \<or>
           falsy (formData ''role'')"
  shows "POST dep (Inr formData) =
           (\<lparr> status = 400, headers = [(''Content-Type'', js ''application/json'')],
              content = TextBody ([123, 34] @ js ''error'' @ [34, 58, 34] @
                 js ''Missing required fields: job_description, company, role'' @ [34, 125]) \<rparr>,
            [])"
proof -
  have "json_object [(''error'', js ''Missing required fields: job_description, company, role'')]
          = [123, 34] @ js ''error'' @ [34, 58, 34] @
            js ''Missing required fields: job_description, company, role'' @ [34, 125]"
    by (simp add: json_object_def json_string_def js_def quote_unit_def is_pair_def
        is_high_surrogate_def is_low_surrogate_def)
  with assms show ?thesis by (simp add: POST_def Let_def json_response_def)
qed

theorem missing_field_is_rejected_witness:
  "no_role_form ''role'' = None \<and>
   POST stub_deployment (Inr no_role_form) =
     (\<lparr> status = 400, headers = [(''Content-Type'', js ''application/json'')],
        content = TextBody ([123, 34] @ js ''error'' @ [34, 58, 34] @
           js ''Missing required fields: job_description, company, role'' @ [34, 125]) \<rparr>,
      [])"
proof -
  have n: "no_role_form ''role'' = None" by (simp add: no_role_form_def)
  then have "falsy (no_role_form ''job_description'') \<or> falsy (no_role_form ''company'') \<or>
             falsy (no_role_form ''role'')"
    by (simp add: falsy_def)
  from missing_field_is_rejected[OF this, of stub_deployment] n show ?thesis by simp
qed


lemma sanitize_nth:
  "i < length s \<Longrightarrow> sanitize s ! i = (if is_word_unit (s ! i) then s ! i else 95)"
  by (simp add: sanitize_def)

lemma POST_success:
  assumes "\<not> falsy (formData ''job_description'')"
    and "formData ''company'' = Some company" "company \<noteq> []"
    and "formData ''role'' = Some role" "role \<noteq> []"
    and "\<not> falsy (OPENAI_API_KEY dep)"
    and "complete dep (or_else (OPENAI_VERSION dep) (js ''gpt-3.5-turbo''))
           (buildPrompt dep (baseResume dep) (the (formData ''job_description'')))
         = Inr (Some tailored)"
    and "tailored \<noteq> []"
    and "render dep (generateResumePdf (runtime_of dep) tailored) = Inr pdfBytes"
  shows "POST dep (Inr formData) =
           (pdf_response pdfBytes company role,
            [ModelCall (or_else (OPENAI_VERSION dep) (js ''gpt-3.5-turbo''))
               (buildPrompt dep (baseResume dep) (the (formData ''job_description''))),
             PdfGeneration tailored])"
  using assms by (simp add: POST_def Let_def falsy_def or_else_def)

text \<open>
  Claim C8, as amended. For a successful request the response has status 200, the
  content type \<open>application/pdf\<close> and the disposition \<open>attachment\<close> with the file
  name \<open>Louis_Bailey_\<close>, the sanitized company, an underscore, the sanitized role and
  \<open>.pdf\<close>; sanitizing keeps the length and replaces each unit outside
  \<open>[a-zA-Z0-9_]\<close> by an underscore. For the company \<open>Acme Inc.\<close> and the role
  \<open>Backend Eng.\<close> the file name is \<open>Louis_Bailey_Acme_Inc__Backend_Eng_.pdf\<close>, with two
  underscores after \<open>Inc\<close>: the one that replaces the dot and the one that joins.
\<close>

theorem success_file_name:
  assumes "\<not> falsy (formData ''job_description'')"
    and "formData ''company'' = Some company" "company \<noteq> []"
    and "formData ''role'' = Some role" "role \<noteq> []"
    and "\<not> falsy (OPENAI_API_KEY dep)"
    and "complete dep (or_else (OPENAI_VERSION dep) (js ''gpt-3.5-turbo''))
           (buildPrompt dep (baseResume dep) (the (formData ''job_description'')))
         = Inr (Some tailored)"
    and "tailored \<noteq> []"
    and "render dep (generateResumePdf (runtime_of dep) tailored) = Inr pdfBytes"
  shows "fst (POST dep (Inr formData)) =
           \<lparr> status = 200,
             headers = [(''Content-Type'', js ''application/pdf''),
                        (''Content-Disposition'',
                         js ''attachment; filename='' @ [34] @ js ''Louis_Bailey_'' @
                         sanitize company @ js ''_'' @ sanitize role @ js ''.pdf'' @ [34])],
             content = BinaryBody pdfBytes \<rparr> \<and>
         length (sanitize company) = length company \<and> length (sanitize role) = length role \<and>
         (\<forall>i < length company.
            sanitize company ! i = (if is_word_unit (company ! i) then company ! i else 95)) \<and>
         (\<forall>i < length role.
            sanitize role ! i = (if is_word_unit (role ! i) then role ! i else 95)) \<and>
         (company = js ''Acme Inc.'' \<and> role = js ''Backend Eng.'' \<longrightarrow>
            js ''Louis_Bailey_'' @ sanitize company @ js ''_'' @ sanitize role @ js ''.pdf''
              = js ''Louis_Bailey_Acme_Inc__Backend_Eng_.pdf'')"
proof -
  have ex: "js ''Louis_Bailey_'' @ sanitize (js ''Acme Inc.'') @ js ''_'' @
              sanitize (js ''Backend Eng.'') @ js ''.pdf''
            = js ''Louis_Bailey_Acme_Inc__Backend_Eng_.pdf''"
    by (simp add: sanitize_def is_word_unit_def js_def)
  have len: "length (sanitize company) = length company" "length (sanitize role) = length role"
    by (simp_all add: sanitize_def)
  from POST_success[OF assms] have
    "fst (POST dep (Inr formData)) = pdf_response pdfBytes company role" by simp
  then show ?thesis
    using ex len by (simp add: pdf_response_def fileBase_def sanitize_nth)
qed

theorem success_file_name_witness:
  "fst (POST stub_deployment (Inr acme_form)) =
     \<lparr> status = 200,
       headers = [(''Content-Type'', js ''application/pdf''),
                  (''Content-Disposition'',
                   js ''attachment; filename='' @ [34] @
                   js ''Louis_Bailey_Acme_Inc__Backend_Eng_.pdf'' @ [34])],
       content = BinaryBody [] \<rparr>"
proof -
  have f: "acme_form ''job_description'' = Some (js ''Build APIs'')"
    "acme_form ''company'' = Some (js ''Acme Inc.'')"
    "acme_form ''role'' = Some (js ''Backend Eng.'')"
    by (simp_all add: acme_form_def)
  have a1: "\<not> falsy (acme_form ''job_description'')" by (simp add: f falsy_def js_def)
  have a3: "js ''Acme Inc.'' \<noteq> []" and a5: "js ''Backend Eng.'' \<noteq> []" by (simp_all add: js_def)
  have a6: "\<not> falsy (OPENAI_API_KEY stub_deployment)"
    by (simp add: stub_deployment_def falsy_def js_def)
  have a7: "complete stub_deployment
              (or_else (OPENAI_VERSION stub_deployment) (js ''gpt-3.5-turbo''))
              (buildPrompt stub_deployment (baseResume stub_deployment)
                 (the (acme_form ''job_description'')))
            = Inr (Some resume6)"
    by (simp add: stub_deployment_def)
  have a8: "resume6 \<noteq> []" by (simp add: resume6_def js_def)
  have a9: "render stub_deployment (generateResumePdf (runtime_of stub_deployment) resume6) = Inr []"
    by (simp add: stub_deployment_def)
  from success_file_name[OF a1 f(2) a3 f(3) a5 a6 a7 a8 a9]
  show ?thesis by simp
qed

text \<open>
  Claim C8 as stated fails: for the company \<open>Acme Inc.\<close> and the role \<open>Backend Eng.\<close>
  the request succeeds and the file name is not \<open>Louis_Bailey_Acme_Inc_Backend_Eng_.pdf\<close>.
\<close>

theorem success_file_name_counterexample:
  "status (fst (POST stub_deployment (Inr acme_form))) = 200 \<and>
   map_of (headers (fst (POST stub_deployment (Inr acme_form)))) ''Content-Disposition''
     \<noteq> Some (js ''attachment; filename='' @ [34] @
               js ''Louis_Bailey_Acme_Inc_Backend_Eng_.pdf'' @ [34])"
proof -
  have f: "acme_form ''job_description'' = Some (js ''Build APIs'')"
    "acme_form ''company'' = Some (js ''Acme Inc.'')"
    "acme_form ''role'' = Some (js ''Backend Eng.'')"
    by (simp_all add: acme_form_def)
  have p: "POST stub_deployment (Inr acme_form)
           = (pdf_response [] (js ''Acme Inc.'') (js ''Backend Eng.''),
              [ModelCall (js ''gpt-3.5-turbo'') (js ''Build APIs''), PdfGeneration resume6])"
    by (simp add: POST_def Let_def f falsy_def or_else_def stub_deployment_def buildPrompt_def
        resume6_def js_def)
  show ?thesis
    unfolding p by (simp add: pdf_response_def fileBase_def sanitize_def is_word_unit_def js_def)
qed

end
